theory Spec2Isabelle
  imports Complex_Main
begin

section \<open>Data model (types.ts)\<close>

text \<open>
  JavaScript strings are modelled as \<^typ>\<open>string\<close> (one \<^typ>\<open>char\<close> per code unit, so
  \<^const>\<open>length\<close> is the \<^verbatim>\<open>.length\<close> of the source and \<^const>\<open>take\<close> is
  \<^verbatim>\<open>substring(0, n)\<close>). JavaScript numbers are modelled as \<^typ>\<open>real\<close> numbers. The
  definitions compute with them exactly, except for the double-precision version of the path
  callback, which rounds every operation as IEEE doubles do. An optional field
  (\<^verbatim>\<open>choices?\<close>, \<^verbatim>\<open>fx?: number | null\<close>) is an \<^typ>\<open>'a option\<close>.
  The fields \<^verbatim>\<open>position\<close> and \<^verbatim>\<open>tags\<close> of a dialogue node and the constant
  \<^verbatim>\<open>type: 'node'\<close> of a graph node are never read by the viewer and are left out.
\<close>

record DialogueChoice =
  ch_text :: string
  ch_nextId :: string
  ch_condition :: "string option"

record DialogueNode =
  dn_id :: string
  dn_speaker :: "string option"
  dn_text :: string
  dn_choices :: "DialogueChoice list option"

text \<open>
  A graph node carries the fields that the viewer reads or writes: the position and the
  pinned position. (The velocity that the simulation keeps on the same object is never
  touched by the viewer.)
\<close>

record GraphNode =
  gn_id :: string
  gn_speaker :: string
  gn_text :: string
  gn_x :: real
  gn_y :: real
  gn_fx :: "real option"
  gn_fy :: "real option"

record GraphLink =
  gl_source :: string
  gl_target :: string
  gl_label :: string
  gl_bidirectional :: bool

section \<open>Graph builder (GraphViewer, render effect, step 1)\<close>

text \<open>
  \<^verbatim>\<open>d.speaker || 'Narrator'\<close>: an absent or empty speaker is falsy.
\<close>

definition speaker_or_default :: "string option \<Rightarrow> string" where
  "speaker_or_default s = (case s of None \<Rightarrow> ''Narrator'' | Some t \<Rightarrow> if t = [] then ''Narrator'' else t)"

text \<open>
  The object literal of \<^verbatim>\<open>data.map\<close>; \<open>r1\<close> and \<open>r2\<close> are the two results of
  \<^verbatim>\<open>Math.random()\<close> drawn for this node.
\<close>

definition mk_node :: "real \<Rightarrow> real \<Rightarrow> real \<Rightarrow> real \<Rightarrow> DialogueNode \<Rightarrow> GraphNode" where
  "mk_node width height r1 r2 d =
     \<lparr>gn_id = dn_id d,
      gn_speaker = speaker_or_default (dn_speaker d),
      gn_text = dn_text d,
      gn_x = width / 2 + (r1 - 0.5) * 50,
      gn_y = height / 2 + (r2 - 0.5) * 50,
      gn_fx = None,
      gn_fy = None\<rparr>"

text \<open>
  \<^verbatim>\<open>data.map(d => ...)\<close> visits the nodes in order and draws twice per node, first for
  \<open>x\<close> and then for \<open>y\<close>: node \<open>i\<close> gets draws \<open>2 i\<close> and \<open>2 i + 1\<close> of the stream \<open>random\<close>.
\<close>

definition build_nodes :: "real \<Rightarrow> real \<Rightarrow> (nat \<Rightarrow> real) \<Rightarrow> DialogueNode list \<Rightarrow> GraphNode list" where
  "build_nodes width height random data =
     map (\<lambda>(i, d). mk_node width height (random (2 * i)) (random (2 * i + 1)) d) (enumerate 0 data)"

text \<open>
  \<^verbatim>\<open>new Map(nodes.map(n => [n.id, n]))\<close>: a later entry overwrites an earlier one with the
  same key, so the lookup finds the last node with that id.
\<close>

definition nodeMap :: "GraphNode list \<Rightarrow> (string \<rightharpoonup> GraphNode)" where
  "nodeMap nodes = map_of (rev (map (\<lambda>n. (gn_id n, n)) nodes))"

definition has :: "('k \<rightharpoonup> 'v) \<Rightarrow> 'k \<Rightarrow> bool" where
  "has m k = (m k \<noteq> None)"

text \<open>The template string \<^verbatim>\<open>`${a}|${b}`\<close>.\<close>

definition link_key :: "string \<Rightarrow> string \<Rightarrow> string" where
  "link_key a b = a @ ''|'' @ b"

text \<open>
  First pass: \<^verbatim>\<open>linkExistenceMap\<close>, a set of strings, filled by two nested
  \<^verbatim>\<open>forEach\<close> loops. \<^verbatim>\<open>if (node.choices)\<close> is true of every array, the empty one
  included.
\<close>

definition add_link_keys :: "(string \<rightharpoonup> GraphNode) \<Rightarrow> DialogueNode \<Rightarrow> string set \<Rightarrow> string set" where
  "add_link_keys nm node s =
     (case dn_choices node of
        None \<Rightarrow> s
      | Some cs \<Rightarrow>
          fold (\<lambda>choice acc.
                  if has nm (ch_nextId choice) then insert (link_key (dn_id node) (ch_nextId choice)) acc
                  else acc) cs s)"

definition linkExistenceMap :: "(string \<rightharpoonup> GraphNode) \<Rightarrow> DialogueNode list \<Rightarrow> string set" where
  "linkExistenceMap nm data = fold (add_link_keys nm) data {}"

text \<open>
  Second pass: the array \<^verbatim>\<open>links\<close>, filled by \<^verbatim>\<open>push\<close>, and the lines written by
  \<^verbatim>\<open>console.warn\<close>. The pair of both is the state of the loop.
\<close>

definition warn_missing :: "string \<Rightarrow> string" where
  "warn_missing nextId = ''Missing target node: '' @ nextId"

definition visit_choice ::
  "(string \<rightharpoonup> GraphNode) \<Rightarrow> string set \<Rightarrow> DialogueNode \<Rightarrow> DialogueChoice
     \<Rightarrow> GraphLink list \<times> string list \<Rightarrow> GraphLink list \<times> string list" where
  "visit_choice nm lem node choice st =
     (if has nm (ch_nextId choice) then
        (let isBidirectional = (link_key (ch_nextId choice) (dn_id node) \<in> lem)
         in (fst st @ [\<lparr>gl_source = dn_id node,
                        gl_target = ch_nextId choice,
                        gl_label = ch_text choice,
                        gl_bidirectional = isBidirectional\<rparr>],
             snd st))
      else (fst st, snd st @ [warn_missing (ch_nextId choice)]))"

definition visit_node ::
  "(string \<rightharpoonup> GraphNode) \<Rightarrow> string set \<Rightarrow> DialogueNode
     \<Rightarrow> GraphLink list \<times> string list \<Rightarrow> GraphLink list \<times> string list" where
  "visit_node nm lem node st =
     (case dn_choices node of
        None \<Rightarrow> st
      | Some cs \<Rightarrow> fold (visit_choice nm lem node) cs st)"

definition build_links ::
  "(string \<rightharpoonup> GraphNode) \<Rightarrow> DialogueNode list \<Rightarrow> GraphLink list \<times> string list" where
  "build_links nm data = fold (visit_node nm (linkExistenceMap nm data)) data ([], [])"

text \<open>
  The whole of step 1: the nodes, the links and the console lines for a node list, a viewport
  and a stream of random draws.
\<close>

definition build_graph ::
  "real \<Rightarrow> real \<Rightarrow> (nat \<Rightarrow> real) \<Rightarrow> DialogueNode list \<Rightarrow> GraphNode list \<times> GraphLink list \<times> string list" where
  "build_graph width height random data =
     (let nodes = build_nodes width height random data;
          nm = nodeMap nodes
      in (nodes, build_links nm data))"

section \<open>Render surface: label truncation\<close>

text \<open>
  The \<^verbatim>\<open>.text(...)\<close> callbacks of the link labels and of the node content text. The
  double quote of the template string is \<^term>\<open>CHR 0x22\<close>.
\<close>

definition link_label_text :: "string \<Rightarrow> string" where
  "link_label_text label = (if length label > 25 then take 25 label @ ''...'' else label)"

definition node_content_text :: "string \<Rightarrow> string" where
  "node_content_text t =
     (if length t > 25 then [CHR 0x22] @ take 25 t @ ''...'' @ [CHR 0x22]
      else [CHR 0x22] @ t @ [CHR 0x22])"

section \<open>Edge geometry (the tick handler)\<close>

text \<open>
  The \<^verbatim>\<open>d\<close> attribute of a link path is a string; its three shapes are kept apart as
  constructors, with the numbers that the template string interpolates:
  \<^verbatim>\<open>""\<close>, \<^verbatim>\<open>M sx,sy A r,r 0 0,0 tx,ty\<close> and \<^verbatim>\<open>M sx,sy L tx,ty\<close>.
\<close>

datatype path = EmptyPath | ArcPath real real real real real | LinePath real real real real

text \<open>
  In HOL \<open>x / 0 = 0\<close>; in the source a division by zero yields a non-finite number. Every
  division of the tick handler is therefore written as a checked division, and reaching a zero
  divisor is a result of its own.
\<close>

datatype tick_error = DivisionByZero | NodeNotFound

definition js_divide :: "real \<Rightarrow> real \<Rightarrow> tick_error + real" where
  "js_divide a b = (if b = 0 then Inl DivisionByZero else Inr (a / b))"

text \<open>
  The callback of \<^verbatim>\<open>linkPath.attr("d", ...)\<close>, for a link whose \<^verbatim>\<open>source\<close> and
  \<^verbatim>\<open>target\<close> the link force has replaced by the node objects.
\<close>

definition link_d :: "GraphNode \<Rightarrow> GraphNode \<Rightarrow> bool \<Rightarrow> tick_error + path" where
  "link_d source target bidirectional =
     (let dx = gn_x target - gn_x source;
          dy = gn_y target - gn_y source;
          dist = sqrt (dx * dx + dy * dy)
      in if dist = 0 then Inr EmptyPath
         else
           (case js_divide dx dist of
              Inl e \<Rightarrow> Inl e
            | Inr ux \<Rightarrow>
                (case js_divide dy dist of
                   Inl e \<Rightarrow> Inl e
                 | Inr uy \<Rightarrow>
                     (let radius = 28;
                          sx = gn_x source + ux * radius;
                          sy = gn_y source + uy * radius;
                          tx = gn_x target - ux * radius;
                          ty = gn_y target - uy * radius;
                          ddist = sqrt ((tx - sx)\<^sup>2 + (ty - sy)\<^sup>2)
                      in if bidirectional then Inr (ArcPath sx sy ddist tx ty)
                         else Inr (LinePath sx sy tx ty)))))"

text \<open>
  The callbacks of \<^verbatim>\<open>linkText.attr("x", ...)\<close> and \<^verbatim>\<open>linkText.attr("y", ...)\<close>;
  \<^verbatim>\<open>Math.sqrt(...) || 1\<close> replaces a zero distance by one.
\<close>

definition link_text_x :: "GraphNode \<Rightarrow> GraphNode \<Rightarrow> bool \<Rightarrow> tick_error + real" where
  "link_text_x source target bidirectional =
     (let dx = gn_x target - gn_x source;
          dy = gn_y target - gn_y source;
          d0 = sqrt (dx * dx + dy * dy);
          dist = (if d0 = 0 then 1 else d0);
          midX = (gn_x source + gn_x target) / 2
      in case js_divide dy dist of
           Inl e \<Rightarrow> Inl e
         | Inr nx \<Rightarrow>
             (let offset = (if bidirectional then - max 25 (dist * 0.15) else - 15)
              in Inr (midX + nx * offset)))"

definition link_text_y :: "GraphNode \<Rightarrow> GraphNode \<Rightarrow> bool \<Rightarrow> tick_error + real" where
  "link_text_y source target bidirectional =
     (let dx = gn_x target - gn_x source;
          dy = gn_y target - gn_y source;
          d0 = sqrt (dx * dx + dy * dy);
          dist = (if d0 = 0 then 1 else d0);
          midY = (gn_y source + gn_y target) / 2
      in case js_divide (- dx) dist of
           Inl e \<Rightarrow> Inl e
         | Inr ny \<Rightarrow>
             (let offset = (if bidirectional then - max 25 (dist * 0.15) else - 15)
              in Inr (midY + ny * offset)))"

text \<open>
  The link force looks the two ends of a link up by id in a map built from the node array (the
  last node with an id wins, as in \<^const>\<open>nodeMap\<close>) and fails when an id has no node. The
  path of a link at a tick is computed from the current node objects.
\<close>

definition link_path :: "GraphNode list \<Rightarrow> GraphLink \<Rightarrow> tick_error + path" where
  "link_path nodes link =
     (case nodeMap nodes (gl_source link) of
        None \<Rightarrow> Inl NodeNotFound
      | Some source \<Rightarrow>
          (case nodeMap nodes (gl_target link) of
             None \<Rightarrow> Inl NodeNotFound
           | Some target \<Rightarrow> link_d source target (gl_bidirectional link)))"

section \<open>Edge geometry in double precision\<close>

text \<open>
  The numbers of the source are IEEE 754 binary64 values, and every arithmetic operation
  returns the exact result rounded to the nearest such value, ties to the even significand.
  \<open>fl64\<close> is this rounding on the reals: 53 significant bits, with the exponent bounded
  below at \<open>-1022\<close> (gradual underflow, so the spacing never drops below 2 to the power -1074).
  Results beyond the largest finite value (infinities) and NaN are outside this model; the
  properties stated with it bound the inputs so that no operation reaches that range.
\<close>

definition round_half_even :: "real \<Rightarrow> int" where
  "round_half_even x =
     (let f = \<lfloor>x\<rfloor>; r = x - of_int f
      in if r < 1 / 2 then f else if 1 / 2 < r then f + 1 else if even f then f else f + 1)"

definition exponent :: "real \<Rightarrow> int" where
  "exponent x = max (- 1022) \<lfloor>log 2 \<bar>x\<bar>\<rfloor>"

definition fl64 :: "real \<Rightarrow> real" where
  "fl64 x =
     (if x = 0 then 0
      else of_int (round_half_even (x / 2 powr of_int (exponent x - 52))) * 2 powr of_int (exponent x - 52))"

text \<open>
  The path callback with every operation rounded: subtraction, multiplication, addition,
  \<^verbatim>\<open>Math.sqrt\<close> and division each return the rounded exact result. (The squares of
  \<^verbatim>\<open>** 2\<close> are taken as rounded products; they enter the radius of the arc only.)
\<close>

definition js_divide_f64 :: "real \<Rightarrow> real \<Rightarrow> tick_error + real" where
  "js_divide_f64 a b = (if b = 0 then Inl DivisionByZero else Inr (fl64 (a / b)))"

definition link_d_f64 :: "GraphNode \<Rightarrow> GraphNode \<Rightarrow> bool \<Rightarrow> tick_error + path" where
  "link_d_f64 source target bidirectional =
     (let dx = fl64 (gn_x target - gn_x source);
          dy = fl64 (gn_y target - gn_y source);
          dist = fl64 (sqrt (fl64 (fl64 (dx * dx) + fl64 (dy * dy))))
      in if dist = 0 then Inr EmptyPath
         else
           (case js_divide_f64 dx dist of
              Inl e \<Rightarrow> Inl e
            | Inr ux \<Rightarrow>
                (case js_divide_f64 dy dist of
                   Inl e \<Rightarrow> Inl e
                 | Inr uy \<Rightarrow>
                     (let radius = 28;
                          sx = fl64 (gn_x source + fl64 (ux * radius));
                          sy = fl64 (gn_y source + fl64 (uy * radius));
                          tx = fl64 (gn_x target - fl64 (ux * radius));
                          ty = fl64 (gn_y target - fl64 (uy * radius));
                          ddist = fl64 (sqrt (fl64 (fl64 ((fl64 (tx - sx))\<^sup>2) + fl64 ((fl64 (ty - sy))\<^sup>2))))
                      in if bidirectional then Inr (ArcPath sx sy ddist tx ty)
                         else Inr (LinePath sx sy tx ty)))))"

section \<open>Simulation handle and interaction\<close>

text \<open>
  The d3 simulation object, as far as the viewer writes it: the node and link arrays it was
  created with, the strength of the \<^verbatim>\<open>charge\<close> force, the cooling factor
  \<^verbatim>\<open>alpha\<close> (between 0 and 1), its target, and whether the internal timer is ticking.
  The setters below are d3's: each writes the one field it is named after.
\<close>

record Simulation =
  sim_nodes :: "GraphNode list"
  sim_links :: "GraphLink list"
  sim_charge :: real
  sim_alpha :: real
  sim_alphaTarget :: real
  sim_running :: bool

definition forceSimulation :: "GraphNode list \<Rightarrow> GraphLink list \<Rightarrow> real \<Rightarrow> Simulation" where
  "forceSimulation nodes links strength =
     \<lparr>sim_nodes = nodes, sim_links = links, sim_charge = strength,
      sim_alpha = 1, sim_alphaTarget = 0, sim_running = True\<rparr>"

definition force_charge :: "real \<Rightarrow> Simulation \<Rightarrow> Simulation" where
  "force_charge strength sim = sim\<lparr>sim_charge := strength\<rparr>"

definition alpha :: "real \<Rightarrow> Simulation \<Rightarrow> Simulation" where
  "alpha a sim = sim\<lparr>sim_alpha := a\<rparr>"

definition alphaTarget :: "real \<Rightarrow> Simulation \<Rightarrow> Simulation" where
  "alphaTarget a sim = sim\<lparr>sim_alphaTarget := a\<rparr>"

definition restart :: "Simulation \<Rightarrow> Simulation" where
  "restart sim = sim\<lparr>sim_running := True\<rparr>"

definition stop :: "Simulation \<Rightarrow> Simulation" where
  "stop sim = sim\<lparr>sim_running := False\<rparr>"

text \<open>
  The drag handlers receive the datum \<open>d\<close>, one of the node objects of the simulation; the
  model names it by its index \<open>i\<close> in the node array and writes the field there. The count
  \<^verbatim>\<open>event.active\<close> of other active gestures is the argument \<open>active\<close>.
\<close>

definition update_node :: "nat \<Rightarrow> (GraphNode \<Rightarrow> GraphNode) \<Rightarrow> Simulation \<Rightarrow> Simulation" where
  "update_node i f sim =
     (if i < length (sim_nodes sim) then sim\<lparr>sim_nodes := (sim_nodes sim)[i := f (sim_nodes sim ! i)]\<rparr>
      else sim)"

definition dragstarted :: "nat \<Rightarrow> nat \<Rightarrow> Simulation \<Rightarrow> Simulation" where
  "dragstarted active i sim =
     update_node i (\<lambda>d. d\<lparr>gn_fx := Some (gn_x d), gn_fy := Some (gn_y d)\<rparr>)
       (if active = 0 then restart (alphaTarget 0.3 sim) else sim)"

definition dragged :: "real \<Rightarrow> real \<Rightarrow> nat \<Rightarrow> Simulation \<Rightarrow> Simulation" where
  "dragged event_x event_y i sim =
     update_node i (\<lambda>d. d\<lparr>gn_fx := Some event_x, gn_fy := Some event_y\<rparr>) sim"

definition dragended :: "nat \<Rightarrow> nat \<Rightarrow> Simulation \<Rightarrow> Simulation" where
  "dragended active i sim =
     update_node i (\<lambda>d. d\<lparr>gn_fx := None, gn_fy := None\<rparr>)
       (if active = 0 then alphaTarget 0 sim else sim)"

section \<open>The component: props, state and effects\<close>

text \<open>
  The props of \<^verbatim>\<open>GraphViewer\<close>. The callback \<^verbatim>\<open>onError\<close> is a prop too; the
  model keeps the list of the arguments it has been called with in the state, next to the lines
  written by \<^verbatim>\<open>console.warn\<close>. (The fields carry the prefix \<open>p_\<close>.)
\<close>

record GraphViewerProps =
  p_data :: "DialogueNode list"
  p_isDarkMode :: bool
  p_repulsionForce :: real

record GraphViewer =
  simulationRef :: "Simulation option"
  dimensions :: "real \<times> real"
  console_warn :: "string list"
  onError_calls :: "string option list"
  cleanup_pending :: bool

text \<open>The effect with dependencies \<^verbatim>\<open>[repulsionForce]\<close>.\<close>

definition update_force :: "GraphViewerProps \<Rightarrow> GraphViewer \<Rightarrow> GraphViewer" where
  "update_force props v =
     (case simulationRef v of
        None \<Rightarrow> v
      | Some sim \<Rightarrow>
          v\<lparr>simulationRef := Some (restart (alpha 0.3 (force_charge (- p_repulsionForce props) sim)))\<rparr>)"

text \<open>
  The effect with dependencies \<^verbatim>\<open>[data, dimensions, isDarkMode]\<close>. It returns early,
  without a cleanup function, on an empty node list or a viewport of width zero; otherwise it
  builds the graph, creates the simulation, stores it in \<^verbatim>\<open>simulationRef\<close> and returns
  the cleanup that stops it.
\<close>

definition render_graph :: "(nat \<Rightarrow> real) \<Rightarrow> GraphViewerProps \<Rightarrow> GraphViewer \<Rightarrow> GraphViewer" where
  "render_graph random props v =
     (if p_data props = [] \<or> fst (dimensions v) = 0 then v\<lparr>cleanup_pending := False\<rparr>
      else
        (let g = build_graph (fst (dimensions v)) (snd (dimensions v)) random (p_data props);
             nodes = fst g;
             links = fst (snd g);
             simulation = forceSimulation nodes links (- p_repulsionForce props)
         in v\<lparr>simulationRef := Some simulation,
              console_warn := console_warn v @ snd (snd g),
              cleanup_pending := True\<rparr>))"

definition render_cleanup :: "GraphViewer \<Rightarrow> GraphViewer" where
  "render_cleanup v =
     (if cleanup_pending v then v\<lparr>simulationRef := map_option stop (simulationRef v), cleanup_pending := False\<rparr>
      else v)"

text \<open>
  A commit of new props: the cleanups of the effects whose dependencies changed run first, then
  those effects in the order of their declaration. The viewport is component state and is not
  changed by a commit of props. Dependencies are compared by value here; the framework
  compares them by identity, and props that were not set again keep their identity.
\<close>

definition rerender :: "(nat \<Rightarrow> real) \<Rightarrow> GraphViewerProps \<Rightarrow> GraphViewerProps \<Rightarrow> GraphViewer \<Rightarrow> GraphViewer" where
  "rerender random old new v =
     (let force_changed = (p_repulsionForce new \<noteq> p_repulsionForce old);
          render_changed = (p_data new \<noteq> p_data old \<or> p_isDarkMode new \<noteq> p_isDarkMode old);
          v1 = (if render_changed then render_cleanup v else v);
          v2 = (if force_changed then update_force new v1 else v1)
      in if render_changed then render_graph random new v2 else v2)"

section \<open>Notions used to state the properties\<close>

text \<open>The choices of a node, an absent list read as the empty one.\<close>

definition choices_of :: "DialogueNode \<Rightarrow> DialogueChoice list" where
  "choices_of node = (case dn_choices node of None \<Rightarrow> [] | Some cs \<Rightarrow> cs)"

text \<open>A choice resolves when its \<^verbatim>\<open>nextId\<close> is the id of a node of the list.\<close>

definition resolves :: "DialogueNode list \<Rightarrow> DialogueChoice \<Rightarrow> bool" where
  "resolves data c = (ch_nextId c \<in> set (map dn_id data))"

text \<open>
  The set of all (source id, target id) pairs that resolve to real nodes, in the words of the
  specification.
\<close>

definition resolved_pairs :: "DialogueNode list \<Rightarrow> (string \<times> string) set" where
  "resolved_pairs data =
     set (concat (map (\<lambda>n. map (\<lambda>c. (dn_id n, ch_nextId c)) (filter (resolves data) (choices_of n))) data))"

text \<open>The link that the second pass pushes for a resolving choice, given the set of keys.\<close>

definition mk_link :: "string set \<Rightarrow> DialogueNode \<Rightarrow> DialogueChoice \<Rightarrow> GraphLink" where
  "mk_link lem node choice =
     \<lparr>gl_source = dn_id node, gl_target = ch_nextId choice, gl_label = ch_text choice,
      gl_bidirectional = (link_key (ch_nextId choice) (dn_id node) \<in> lem)\<rparr>"

text \<open>The keys of the resolving choices: the content of \<^verbatim>\<open>linkExistenceMap\<close> after the first pass.\<close>

definition key_set :: "DialogueNode list \<Rightarrow> string set" where
  "key_set ds = set (concat (map (\<lambda>n. map (\<lambda>c. link_key (dn_id n) (ch_nextId c)) (filter (resolves ds) (choices_of n))) ds))"

text \<open>The node list without its dangling choices, and the dangling choices in iteration order.\<close>

definition drop_dangling :: "DialogueNode list \<Rightarrow> DialogueNode list" where
  "drop_dangling data = map (\<lambda>n. n\<lparr>dn_choices := map_option (filter (resolves data)) (dn_choices n)\<rparr>) data"

definition dangling_choices :: "DialogueNode list \<Rightarrow> DialogueChoice list" where
  "dangling_choices data = concat (map (\<lambda>n. filter (\<lambda>c. \<not> resolves data c) (choices_of n)) data)"

text \<open>Euclidean distance between two points of the plane.\<close>

definition distance :: "real \<times> real \<Rightarrow> real \<times> real \<Rightarrow> real" where
  "distance p q = sqrt ((fst p - fst q)\<^sup>2 + (snd p - snd q)\<^sup>2)"

text \<open>The first and the last point of a path; the empty path has neither.\<close>

fun path_start :: "path \<Rightarrow> (real \<times> real) option" where
  "path_start EmptyPath = None"
| "path_start (ArcPath sx sy r tx ty) = Some (sx, sy)"
| "path_start (LinePath sx sy tx ty) = Some (sx, sy)"

fun path_end :: "path \<Rightarrow> (real \<times> real) option" where
  "path_end EmptyPath = None"
| "path_end (ArcPath sx sy r tx ty) = Some (tx, ty)"
| "path_end (LinePath sx sy tx ty) = Some (tx, ty)"

section \<open>Example inputs\<close>

text \<open>A stream of draws that always returns one half, and three small node lists.\<close>

definition half_draws :: "nat \<Rightarrow> real" where
  "half_draws k = 1 / 2"

definition separator_example :: "DialogueNode list" where
  "separator_example =
     [\<lparr>dn_id = ''a'', dn_speaker = None, dn_text = ''hi'',
       dn_choices = Some [\<lparr>ch_text = ''go'', ch_nextId = ''a|a'', ch_condition = None\<rparr>]\<rparr>,
      \<lparr>dn_id = ''a|a'', dn_speaker = None, dn_text = ''bye'', dn_choices = None\<rparr>]"

definition ghost_example :: "DialogueNode list" where
  "ghost_example =
     [\<lparr>dn_id = ''a'', dn_speaker = None, dn_text = ''hi'',
       dn_choices = Some [\<lparr>ch_text = ''boo'', ch_nextId = ''ghost'', ch_condition = None\<rparr>,
                          \<lparr>ch_text = ''go'', ch_nextId = ''b'', ch_condition = None\<rparr>]\<rparr>,
      \<lparr>dn_id = ''b'', dn_speaker = None, dn_text = ''bye'',
       dn_choices = Some [\<lparr>ch_text = ''back'', ch_nextId = ''a'', ch_condition = None\<rparr>]\<rparr>]"

definition loop_example :: "DialogueNode list" where
  "loop_example =
     [\<lparr>dn_id = ''a'', dn_speaker = None, dn_text = ''hi'',
       dn_choices = Some [\<lparr>ch_text = ''again'', ch_nextId = ''a'', ch_condition = None\<rparr>]\<rparr>]"

text \<open>A graph node with a given id and position, at rest and not pinned.\<close>

definition node_at :: "string \<Rightarrow> real \<Rightarrow> real \<Rightarrow> GraphNode" where
  "node_at i x y =
     \<lparr>gn_id = i, gn_speaker = ''Narrator'', gn_text = ''hi'', gn_x = x, gn_y = y,
      gn_fx = None, gn_fy = None\<rparr>"

text \<open>A stream of draws that always returns zero, and the self-loop on the node \<open>a\<close>.\<close>

definition zero_draws :: "nat \<Rightarrow> real" where
  "zero_draws k = 0"

definition self_loop :: GraphLink where
  "self_loop = \<lparr>gl_source = ''a'', gl_target = ''a'', gl_label = ''again'', gl_bidirectional = True\<rparr>"

text \<open>
  Props with the node list that has a dangling choice, a mounted viewer before its first render,
  and a viewer whose simulation has two nodes and has cooled down and stopped.
\<close>

definition ghost_props :: GraphViewerProps where
  "ghost_props = \<lparr>p_data = ghost_example, p_isDarkMode = True, p_repulsionForce = 1500\<rparr>"

definition mounted_viewer :: GraphViewer where
  "mounted_viewer =
     \<lparr>simulationRef = None, dimensions = (800, 600), console_warn = [], onError_calls = [],
      cleanup_pending = False\<rparr>"

definition idle_simulation :: Simulation where
  "idle_simulation =
     \<lparr>sim_nodes = [node_at ''a'' 10 20, node_at ''b'' 30 40],
      sim_links = [\<lparr>gl_source = ''a'', gl_target = ''b'', gl_label = ''go'', gl_bidirectional = False\<rparr>],
      sim_charge = - 1500, sim_alpha = 0, sim_alphaTarget = 0, sim_running = False\<rparr>"

definition idle_viewer :: GraphViewer where
  "idle_viewer =
     \<lparr>simulationRef = Some idle_simulation, dimensions = (800, 600), console_warn = [],
      onError_calls = [], cleanup_pending = True\<rparr>"

section \<open>The graph builder in closed form\<close>

lemma has_nodeMap: "has (nodeMap nodes) k \<longleftrightarrow> k \<in> set (map gn_id nodes)"
  by (force simp: has_def nodeMap_def map_of_eq_None_iff image_iff)

lemma gn_id_build_nodes: "map gn_id (build_nodes w h r ds) = map dn_id ds"
proof -
  have "map gn_id (build_nodes w h r ds) = map (dn_id \<circ> snd) (enumerate 0 ds)"
    by (simp add: build_nodes_def mk_node_def case_prod_beta comp_def)
  also have "\<dots> = map dn_id (map snd (enumerate 0 ds))"
    by (simp only: map_map)
  finally show ?thesis by simp
qed

lemma has_build_nodes: "has (nodeMap (build_nodes w h r ds)) (ch_nextId c) \<longleftrightarrow> resolves ds c"
  by (simp only: has_nodeMap gn_id_build_nodes resolves_def)

lemma fold_keys:
  "fold (\<lambda>choice acc. if has nm (ch_nextId choice) then insert (link_key i (ch_nextId choice)) acc else acc) cs s
   = s \<union> set (map (\<lambda>c. link_key i (ch_nextId c)) (filter (\<lambda>c. has nm (ch_nextId c)) cs))"
  by (induction cs arbitrary: s) auto

lemma add_link_keys_eq:
  "add_link_keys nm node s =
   s \<union> set (map (\<lambda>c. link_key (dn_id node) (ch_nextId c)) (filter (\<lambda>c. has nm (ch_nextId c)) (choices_of node)))"
  by (simp add: add_link_keys_def choices_of_def fold_keys split: option.splits)

lemma fold_add_link_keys:
  "fold (add_link_keys nm) ds s =
   s \<union> set (concat (map (\<lambda>n. map (\<lambda>c. link_key (dn_id n) (ch_nextId c))
                                   (filter (\<lambda>c. has nm (ch_nextId c)) (choices_of n))) ds))"
  by (induction ds arbitrary: s) (auto simp: add_link_keys_eq)

lemma linkExistenceMap_eq:
  "linkExistenceMap nm ds =
   set (concat (map (\<lambda>n. map (\<lambda>c. link_key (dn_id n) (ch_nextId c))
                               (filter (\<lambda>c. has nm (ch_nextId c)) (choices_of n))) ds))"
  by (simp add: linkExistenceMap_def fold_add_link_keys)

lemma fold_visit_choice:
  "fold (visit_choice nm lem node) cs st =
   (fst st @ map (mk_link lem node) (filter (\<lambda>c. has nm (ch_nextId c)) cs),
    snd st @ map (\<lambda>c. warn_missing (ch_nextId c)) (filter (\<lambda>c. \<not> has nm (ch_nextId c)) cs))"
  by (induction cs arbitrary: st) (auto simp: visit_choice_def mk_link_def)

lemma visit_node_eq:
  "visit_node nm lem node st =
   (fst st @ map (mk_link lem node) (filter (\<lambda>c. has nm (ch_nextId c)) (choices_of node)),
    snd st @ map (\<lambda>c. warn_missing (ch_nextId c)) (filter (\<lambda>c. \<not> has nm (ch_nextId c)) (choices_of node)))"
  by (simp add: visit_node_def choices_of_def fold_visit_choice split: option.splits)

lemma fold_visit_node:
  "fold (visit_node nm lem) ds st =
   (fst st @ concat (map (\<lambda>n. map (mk_link lem n) (filter (\<lambda>c. has nm (ch_nextId c)) (choices_of n))) ds),
    snd st @ concat (map (\<lambda>n. map (\<lambda>c. warn_missing (ch_nextId c))
                                   (filter (\<lambda>c. \<not> has nm (ch_nextId c)) (choices_of n))) ds))"
  by (induction ds arbitrary: st) (auto simp: visit_node_eq)

lemma linkExistenceMap_build:
  "linkExistenceMap (nodeMap (build_nodes w h r ds)) ds = key_set ds"
  by (simp add: linkExistenceMap_eq has_build_nodes key_set_def)

lemma build_graph_links:
  "fst (snd (build_graph w h r ds)) =
   concat (map (\<lambda>n. map (mk_link (key_set ds) n) (filter (resolves ds) (choices_of n))) ds)"
  by (simp add: build_graph_def Let_def build_links_def fold_visit_node linkExistenceMap_build has_build_nodes)

lemma build_graph_warnings:
  "snd (snd (build_graph w h r ds)) = map (\<lambda>c. warn_missing (ch_nextId c)) (dangling_choices ds)"
  by (simp add: build_graph_def Let_def build_links_def fold_visit_node has_build_nodes
      dangling_choices_def map_concat comp_def)

lemma link_key_inj:
  assumes "link_key a b = link_key c d" "CHR ''|'' \<notin> set a" "CHR ''|'' \<notin> set c"
  shows "a = c \<and> b = d"
  using assms unfolding link_key_def
  by (induction a arbitrary: c) (case_tac c; auto)+

lemma key_set_iff:
  "k \<in> key_set ds \<longleftrightarrow> (\<exists>p \<in> resolved_pairs ds. k = link_key (fst p) (snd p))"
  by (auto simp: key_set_def resolved_pairs_def)

lemma resolved_pairs_ids:
  "(a, b) \<in> resolved_pairs ds \<Longrightarrow> a \<in> set (map dn_id ds) \<and> b \<in> set (map dn_id ds)"
  by (auto simp: resolved_pairs_def resolves_def)

lemma link_in_graph:
  "l \<in> set (fst (snd (build_graph w h r ds))) \<longleftrightarrow>
   (\<exists>n \<in> set ds. \<exists>c \<in> set (choices_of n). resolves ds c \<and> l = mk_link (key_set ds) n c)"
  by (auto simp: build_graph_links)

text \<open>The reverse pair in the pair set always sets the flag.\<close>

lemma reverse_pair_sets_flag:
  assumes "l \<in> set (fst (snd (build_graph w h r ds)))"
    and "(gl_target l, gl_source l) \<in> resolved_pairs ds"
  shows "gl_bidirectional l"
proof -
  from assms(1) obtain n c where l: "l = mk_link (key_set ds) n c"
    by (auto simp: link_in_graph)
  from assms(2) have "link_key (gl_target l) (gl_source l) \<in> key_set ds"
    unfolding key_set_iff by force
  then show ?thesis by (simp add: l mk_link_def)
qed

text \<open>Where no node id contains the separator, the flag is exact.\<close>

lemma flag_exact_without_separator:
  assumes "l \<in> set (fst (snd (build_graph w h r ds)))"
    and bar: "\<forall>n \<in> set ds. CHR ''|'' \<notin> set (dn_id n)"
  shows "gl_bidirectional l \<longleftrightarrow> (gl_target l, gl_source l) \<in> resolved_pairs ds"
proof
  assume "gl_bidirectional l"
  from assms(1) obtain n c where n: "n \<in> set ds" and c: "resolves ds c"
    and l: "l = mk_link (key_set ds) n c"
    by (auto simp: link_in_graph)
  from \<open>gl_bidirectional l\<close> have "link_key (ch_nextId c) (dn_id n) \<in> key_set ds"
    by (simp add: l mk_link_def)
  then obtain a b where ab: "(a, b) \<in> resolved_pairs ds"
    and k: "link_key (ch_nextId c) (dn_id n) = link_key a b"
    unfolding key_set_iff by auto
  from c bar have "CHR ''|'' \<notin> set (ch_nextId c)"
    by (auto simp: resolves_def)
  moreover from resolved_pairs_ids[OF ab] bar have "CHR ''|'' \<notin> set a"
    by auto
  ultimately have "ch_nextId c = a \<and> dn_id n = b"
    using link_key_inj[OF k] by simp
  with ab show "(gl_target l, gl_source l) \<in> resolved_pairs ds"
    by (simp add: l mk_link_def)
next
  assume "(gl_target l, gl_source l) \<in> resolved_pairs ds"
  with assms(1) show "gl_bidirectional l" by (rule reverse_pair_sets_flag)
qed

lemmas builder_defs = build_graph_def build_links_def build_nodes_def mk_node_def nodeMap_def has_def
  linkExistenceMap_def add_link_keys_def visit_node_def visit_choice_def link_key_def warn_missing_def
  speaker_or_default_def

section \<open>Bidirectional detection\<close>

text \<open>
  C1 (the flag is set if and only if the reverse pair is in the pair set). The builder tests the
  reverse pair through the string key \<open>target|source\<close>, and two different pairs of ids
  can have the same key when an id contains the separator. For the nodes \<open>a\<close> and
  \<open>a|a\<close> with the single choice from \<open>a\<close> to \<open>a|a\<close>, the builder emits that
  edge with the flag set, although the reverse pair is not in the pair set: the claim's
  "only if" fails on the code at this input.
\<close>

theorem separator_in_id_flags_one_way_edge:
  "fst (snd (build_graph 800 600 half_draws separator_example)) =
     [\<lparr>gl_source = ''a'', gl_target = ''a|a'', gl_label = ''go'', gl_bidirectional = True\<rparr>]
   \<and> (''a|a'', ''a'') \<notin> resolved_pairs separator_example"
  by (simp add: builder_defs separator_example_def resolved_pairs_def resolves_def choices_of_def Let_def)

section \<open>Dangling choices\<close>

lemma ids_drop_dangling: "map dn_id (drop_dangling ds) = map dn_id ds"
  by (simp add: drop_dangling_def comp_def)

lemma resolves_drop_dangling: "resolves (drop_dangling ds) = resolves ds"
  by (simp add: resolves_def fun_eq_iff ids_drop_dangling)

lemma choices_of_drop:
  "choices_of (n\<lparr>dn_choices := map_option (filter P) (dn_choices n)\<rparr>) = filter P (choices_of n)"
  by (simp add: choices_of_def split: option.splits)

lemma key_set_drop_dangling: "key_set (drop_dangling ds) = key_set ds"
  unfolding key_set_def resolves_drop_dangling
  by (simp add: drop_dangling_def comp_def choices_of_drop)

lemma mk_link_drop:
  "mk_link k (n\<lparr>dn_choices := cs\<rparr>) = mk_link k n"
  by (simp add: mk_link_def fun_eq_iff)

lemma links_drop_dangling:
  "fst (snd (build_graph w h r (drop_dangling ds))) = fst (snd (build_graph w h r ds))"
  unfolding build_graph_links key_set_drop_dangling resolves_drop_dangling
  by (simp add: drop_dangling_def comp_def choices_of_drop mk_link_drop)

lemma no_dangling_after_drop: "dangling_choices (drop_dangling ds) = []"
  unfolding dangling_choices_def resolves_drop_dangling
  by (simp add: drop_dangling_def comp_def choices_of_drop)

lemma link_fields:
  "map (\<lambda>l. (gl_source l, gl_target l, gl_label l)) (fst (snd (build_graph w h r ds))) =
   concat (map (\<lambda>n. map (\<lambda>c. (dn_id n, ch_nextId c, ch_text c)) (filter (resolves ds) (choices_of n))) ds)"
  by (simp add: build_graph_links map_concat comp_def mk_link_def)

lemma link_targets_resolve:
  "l \<in> set (fst (snd (build_graph w h r ds))) \<Longrightarrow> gl_target l \<in> set (map dn_id ds)"
  by (auto simp: link_in_graph mk_link_def resolves_def)

text \<open>
  C2. For every node list (and every viewport and stream of draws): every edge of the built
  list has a target that is the id of a node, and the edges are, in iteration order, exactly
  those of the resolving choices, so a dangling choice yields no edge; the console lines are
  one warning per dangling choice, in iteration order; and the built edges (source, target,
  label, flag and order) are those built from the node list without its dangling choices.
  The builder is a total function: it has no failing branch.
\<close>

theorem dangling_choice_dropped_with_warning:
  "(\<forall>l \<in> set (fst (snd (build_graph w h r ds))). gl_target l \<in> set (map dn_id ds))
   \<and> map (\<lambda>l. (gl_source l, gl_target l, gl_label l)) (fst (snd (build_graph w h r ds))) =
       concat (map (\<lambda>n. map (\<lambda>c. (dn_id n, ch_nextId c, ch_text c)) (filter (resolves ds) (choices_of n))) ds)
   \<and> snd (snd (build_graph w h r ds)) = map (\<lambda>c. warn_missing (ch_nextId c)) (dangling_choices ds)
   \<and> dangling_choices (drop_dangling ds) = []
   \<and> fst (snd (build_graph w h r ds)) = fst (snd (build_graph w h r (drop_dangling ds)))"
  using link_targets_resolve link_fields build_graph_warnings no_dangling_after_drop links_drop_dangling
  by (intro conjI ballI) simp_all

text \<open>
  The property at the node list \<open>a\<close>, \<open>b\<close> where \<open>a\<close> has a choice to the missing
  node \<open>ghost\<close> and one to \<open>b\<close>, and \<open>b\<close> has one back to \<open>a\<close>.
\<close>

theorem dangling_choice_dropped_with_warning_witness:
  "fst (snd (build_graph 800 600 half_draws ghost_example)) =
     [\<lparr>gl_source = ''a'', gl_target = ''b'', gl_label = ''go'', gl_bidirectional = True\<rparr>,
      \<lparr>gl_source = ''b'', gl_target = ''a'', gl_label = ''back'', gl_bidirectional = True\<rparr>]
   \<and> snd (snd (build_graph 800 600 half_draws ghost_example)) = [''Missing target node: ghost'']
   \<and> fst (snd (build_graph 800 600 half_draws (drop_dangling ghost_example))) =
       fst (snd (build_graph 800 600 half_draws ghost_example))
   \<and> set (map gl_target (fst (snd (build_graph 800 600 half_draws ghost_example)))) \<subseteq> {''a'', ''b''}"
proof -
  have links: "fst (snd (build_graph 800 600 half_draws ghost_example)) =
     [\<lparr>gl_source = ''a'', gl_target = ''b'', gl_label = ''go'', gl_bidirectional = True\<rparr>,
      \<lparr>gl_source = ''b'', gl_target = ''a'', gl_label = ''back'', gl_bidirectional = True\<rparr>]"
    by (simp add: builder_defs ghost_example_def Let_def)
  have dangling: "dangling_choices ghost_example = [\<lparr>ch_text = ''boo'', ch_nextId = ''ghost'', ch_condition = None\<rparr>]"
    by (simp add: dangling_choices_def ghost_example_def resolves_def choices_of_def)
  have ids: "set (map dn_id ghost_example) = {''a'', ''b''}"
    by (simp add: ghost_example_def)
  note inst = dangling_choice_dropped_with_warning [of 800 600 half_draws ghost_example]
  from inst have "snd (snd (build_graph 800 600 half_draws ghost_example)) = [''Missing target node: ghost'']"
    by (simp add: dangling warn_missing_def)
  moreover from inst have "fst (snd (build_graph 800 600 half_draws (drop_dangling ghost_example))) =
       fst (snd (build_graph 800 600 half_draws ghost_example))"
    by simp
  moreover from inst have "set (map gl_target (fst (snd (build_graph 800 600 half_draws ghost_example)))) \<subseteq> {''a'', ''b''}"
    unfolding ids by auto
  ultimately show ?thesis using links by blast
qed

section \<open>Edge geometry\<close>

lemma sqrt_sum_squares_zero_iff: "sqrt (dx * dx + dy * dy) = 0 \<longleftrightarrow> dx = 0 \<and> dy = (0::real)"
  by simp

lemma link_d_coincident:
  assumes "gn_x s = gn_x t" and "gn_y s = gn_y t"
  shows "link_d s t b = Inr EmptyPath"
  using assms by (simp add: link_d_def)

lemma link_d_apart:
  assumes "gn_x s \<noteq> gn_x t \<or> gn_y s \<noteq> gn_y t"
  defines "d \<equiv> sqrt ((gn_x t - gn_x s) * (gn_x t - gn_x s) + (gn_y t - gn_y s) * (gn_y t - gn_y s))"
  defines "ux \<equiv> (gn_x t - gn_x s) / d" and "uy \<equiv> (gn_y t - gn_y s) / d"
  defines "sx \<equiv> gn_x s + ux * 28" and "sy \<equiv> gn_y s + uy * 28"
    and "tx \<equiv> gn_x t - ux * 28" and "ty \<equiv> gn_y t - uy * 28"
  shows "link_d s t b =
           (if b then Inr (ArcPath sx sy (sqrt ((tx - sx)\<^sup>2 + (ty - sy)\<^sup>2)) tx ty)
            else Inr (LinePath sx sy tx ty))"
proof -
  from assms(1) have "d \<noteq> 0"
    unfolding d_def sqrt_sum_squares_zero_iff by auto
  then show ?thesis
    unfolding link_d_def js_divide_def Let_def sx_def sy_def tx_def ty_def ux_def uy_def d_def
    by simp
qed

lemma link_d_total: "\<exists>p. link_d s t b = Inr p"
proof (cases "gn_x s = gn_x t \<and> gn_y s = gn_y t")
  case True
  then show ?thesis by (simp add: link_d_coincident)
next
  case False
  then have "gn_x s \<noteq> gn_x t \<or> gn_y s \<noteq> gn_y t" by simp
  from link_d_apart[OF this, of b] show ?thesis by (cases b) simp_all
qed

lemma link_text_x_total: "\<exists>x. link_text_x s t b = Inr x"
  by (simp add: link_text_x_def js_divide_def Let_def)

lemma link_text_y_total: "\<exists>y. link_text_y s t b = Inr y"
  by (simp add: link_text_y_def js_divide_def Let_def)

lemma scaled_unit_vector:
  fixes dx dy r :: real
  assumes "r \<noteq> 0" and "r * r = dx * dx + dy * dy"
  shows "(dx / r * 28)\<^sup>2 + (dy / r * 28)\<^sup>2 = 784"
proof -
  have "(dx / r * 28)\<^sup>2 + (dy / r * 28)\<^sup>2 = 784 * (dx * dx + dy * dy) / (r * r)"
    by (simp add: power2_eq_square add_divide_distrib distrib_left)
  also have "\<dots> = 784 * ((r * r) / (r * r))"
    by (simp only: assms(2) times_divide_eq_right)
  also have "\<dots> = 784"
    using assms(1) by simp
  finally show ?thesis .
qed

lemma unit_vector_offset:
  fixes dx dy :: real
  assumes "dx \<noteq> 0 \<or> dy \<noteq> 0"
  shows "sqrt ((dx / sqrt (dx * dx + dy * dy) * 28)\<^sup>2 + (dy / sqrt (dx * dx + dy * dy) * 28)\<^sup>2) = 28"
proof -
  let ?r = "sqrt (dx * dx + dy * dy)"
  have nz: "?r \<noteq> 0"
    using assms unfolding sqrt_sum_squares_zero_iff by simp
  have "0 \<le> dx * dx + dy * dy" by simp
  then have sq: "?r * ?r = dx * dx + dy * dy" by simp
  have "sqrt (784::real) = 28"
    using real_sqrt_abs [of "28::real"] by simp
  then show ?thesis
    by (simp only: scaled_unit_vector [OF nz sq])
qed

text \<open>
  C5. For every link whose two ends have exactly the same position, the path callback returns
  the empty path. For all positions and both kinds of link the path callback and the two label
  callbacks return a value: no division by zero is reached, since the path callback divides
  only after the test for a zero distance and the label callbacks replace a zero distance by
  one. (Positions are exact reals in the model.)
\<close>

theorem coincident_positions_empty_path:
  "(gn_x s = gn_x t \<and> gn_y s = gn_y t \<longrightarrow> link_d s t b = Inr EmptyPath)
   \<and> (\<exists>p. link_d s' t' b' = Inr p)
   \<and> (\<exists>x y. link_text_x s' t' b' = Inr x \<and> link_text_y s' t' b' = Inr y)"
  using link_d_coincident link_d_total link_text_x_total link_text_y_total by blast

text \<open>The property at two nodes placed at (3, 4), next to the path between (0, 0) and (60, 80).\<close>

theorem coincident_positions_empty_path_witness:
  "link_d (node_at ''a'' 3 4) (node_at ''b'' 3 4) True = Inr EmptyPath
   \<and> link_d (node_at ''a'' 0 0) (node_at ''b'' 60 80) False = Inr (LinePath (84/5) (112/5) (216/5) (288/5))"
proof -
  have "link_d (node_at ''a'' 3 4) (node_at ''b'' 3 4) True = Inr EmptyPath"
    using coincident_positions_empty_path [of "node_at ''a'' 3 4" "node_at ''b'' 3 4" True]
    by (simp add: node_at_def)
  moreover have "sqrt (10000::real) = 100"
    using real_sqrt_abs [of "100::real"] by simp
  then have "link_d (node_at ''a'' 0 0) (node_at ''b'' 60 80) False = Inr (LinePath (84/5) (112/5) (216/5) (288/5))"
    by (simp add: link_d_def node_at_def js_divide_def Let_def)
  ultimately show ?thesis by simp
qed

text \<open>
  In exact arithmetic the first and the last point of the path lie at distance exactly 28
  from the centres of the source and the target node.
\<close>

lemma exact_path_ends_at_boundary_offset:
  assumes "(gn_x s, gn_y s) \<noteq> (gn_x t, gn_y t)"
  shows "\<exists>p ps pe. link_d s t b = Inr p \<and> path_start p = Some ps \<and> path_end p = Some pe
           \<and> distance ps (gn_x s, gn_y s) = 28 \<and> distance pe (gn_x t, gn_y t) = 28"
proof -
  from assms have apart: "gn_x s \<noteq> gn_x t \<or> gn_y s \<noteq> gn_y t" by simp
  then have nz: "gn_x t - gn_x s \<noteq> 0 \<or> gn_y t - gn_y s \<noteq> 0" by auto
  let ?dx = "gn_x t - gn_x s" and ?dy = "gn_y t - gn_y s"
  let ?d = "sqrt (?dx * ?dx + ?dy * ?dy)"
  let ?sx = "gn_x s + ?dx / ?d * 28" and ?sy = "gn_y s + ?dy / ?d * 28"
  let ?tx = "gn_x t - ?dx / ?d * 28" and ?ty = "gn_y t - ?dy / ?d * 28"
  have s28: "distance (?sx, ?sy) (gn_x s, gn_y s) = 28"
    using unit_vector_offset[OF nz] by (simp add: distance_def)
  have "(?tx - gn_x t)\<^sup>2 = (?dx / ?d * 28)\<^sup>2" "(?ty - gn_y t)\<^sup>2 = (?dy / ?d * 28)\<^sup>2"
    by (simp_all add: power2_eq_square)
  then have t28: "distance (?tx, ?ty) (gn_x t, gn_y t) = 28"
    using unit_vector_offset[OF nz] by (simp add: distance_def)
  show ?thesis
  proof (cases b)
    case True
    with link_d_apart[OF apart, of b] s28 t28 show ?thesis by simp
  next
    case False
    with link_d_apart[OF apart, of b] s28 t28 show ?thesis by simp
  qed
qed

section \<open>Self-loops\<close>

lemma link_path_same_ends:
  assumes "gl_source l = gl_target l" and "gl_target l \<in> set (map gn_id nodes)"
  shows "link_path nodes l = Inr EmptyPath"
proof -
  from assms(2) have "has (nodeMap nodes) (gl_target l)"
    by (simp only: has_nodeMap)
  then obtain t where "nodeMap nodes (gl_target l) = Some t"
    by (auto simp: has_def)
  with assms(1) show ?thesis
    by (simp add: link_path_def link_d_coincident)
qed

text \<open>
  C10 (amended). For every node with a choice whose \<^verbatim>\<open>nextId\<close> is the node's own id,
  the builder emits the self-loop edge with the flag set. At a tick both ends of this edge
  are the same node object, so for every node array with the ids of the node list the path
  callback takes the zero-distance branch and returns the empty path: no arc is drawn.
\<close>

theorem self_loop_flagged_and_path_empty:
  assumes "n \<in> set ds" and "c \<in> set (choices_of n)" and "ch_nextId c = dn_id n"
    and "map gn_id nodes = map dn_id ds"
  shows "\<lparr>gl_source = dn_id n, gl_target = dn_id n, gl_label = ch_text c, gl_bidirectional = True\<rparr>
           \<in> set (fst (snd (build_graph w h r ds)))
         \<and> link_path nodes
             \<lparr>gl_source = dn_id n, gl_target = dn_id n, gl_label = ch_text c, gl_bidirectional = True\<rparr>
           = Inr EmptyPath"
proof -
  from assms(1,3) have res: "resolves ds c"
    by (simp add: resolves_def)
  with assms(1,2) have "(dn_id n, ch_nextId c) \<in> resolved_pairs ds"
    by (auto simp: resolved_pairs_def)
  then have "link_key (dn_id n) (ch_nextId c) \<in> key_set ds"
    unfolding key_set_iff by force
  then have "mk_link (key_set ds) n c =
      \<lparr>gl_source = dn_id n, gl_target = dn_id n, gl_label = ch_text c, gl_bidirectional = True\<rparr>"
    by (simp add: mk_link_def assms(3))
  with assms(1,2) res have "\<lparr>gl_source = dn_id n, gl_target = dn_id n, gl_label = ch_text c, gl_bidirectional = True\<rparr>
           \<in> set (fst (snd (build_graph w h r ds)))"
    unfolding link_in_graph by metis
  moreover from assms(1,4) have "link_path nodes
             \<lparr>gl_source = dn_id n, gl_target = dn_id n, gl_label = ch_text c, gl_bidirectional = True\<rparr>
           = Inr EmptyPath"
    by (intro link_path_same_ends) simp_all
  ultimately show ?thesis by simp
qed

theorem self_loop_flagged_and_path_empty_witness:
  "self_loop \<in> set (fst (snd (build_graph 800 600 zero_draws loop_example)))
   \<and> link_path [node_at ''a'' 17 42] self_loop = Inr EmptyPath"
proof -
  let ?n = "\<lparr>dn_id = ''a'', dn_speaker = None, dn_text = ''hi'',
       dn_choices = Some [\<lparr>ch_text = ''again'', ch_nextId = ''a'', ch_condition = None\<rparr>]\<rparr>"
  let ?c = "\<lparr>ch_text = ''again'', ch_nextId = ''a'', ch_condition = None\<rparr>"
  have 1: "?n \<in> set loop_example" by (simp add: loop_example_def)
  have 2: "?c \<in> set (choices_of ?n)" by (simp add: choices_of_def)
  have 3: "ch_nextId ?c = dn_id ?n" by simp
  have 4: "map gn_id [node_at ''a'' 17 42] = map dn_id loop_example"
    by (simp add: node_at_def loop_example_def)
  from self_loop_flagged_and_path_empty [OF 1 2 3 4, of 800 600 zero_draws]
  show ?thesis by (simp add: self_loop_def)
qed

text \<open>
  The claim as stated fails for the node \<open>a\<close> with a choice to itself: the builder emits the
  flagged self-loop, and at a tick the path of that edge over the built nodes is the empty
  path, not an arc.
\<close>

theorem self_loop_not_drawn_as_arc:
  "fst (snd (build_graph 800 600 zero_draws loop_example)) = [self_loop]
   \<and> link_path (fst (build_graph 800 600 zero_draws loop_example)) self_loop = Inr EmptyPath"
  by (simp add: builder_defs loop_example_def self_loop_def zero_draws_def Let_def
      link_path_def link_d_def)

section \<open>The error channel\<close>

lemma onError_update_force: "onError_calls (update_force props v) = onError_calls v"
  by (simp add: update_force_def split: option.splits)

lemma onError_render_cleanup: "onError_calls (render_cleanup v) = onError_calls v"
  by (simp add: render_cleanup_def)

lemma onError_render_graph: "onError_calls (render_graph random props v) = onError_calls v"
  by (simp add: render_graph_def Let_def)

lemma onError_rerender: "onError_calls (rerender random old new v) = onError_calls v"
  by (simp add: rerender_def Let_def onError_render_graph onError_update_force onError_render_cleanup)

lemma console_render_graph:
  "console_warn (render_graph random props v) =
     console_warn v @
       (if p_data props = [] \<or> fst (dimensions v) = 0 then []
        else map (\<lambda>c. warn_missing (ch_nextId c)) (dangling_choices (p_data props)))"
  by (simp add: render_graph_def Let_def build_graph_warnings)

text \<open>
  C3 (amended). The viewer never calls \<^verbatim>\<open>onError\<close>: for every props, state and stream of
  draws, the render effect, the force effect and a commit of new props leave the list of calls
  of \<^verbatim>\<open>onError\<close> as it was. A dangling edge target is only logged: a render that is not
  skipped appends one console warning per dangling choice, and nothing else, to the console.
\<close>

theorem dangling_target_logged_not_reported:
  "onError_calls (render_graph random props v) = onError_calls v
   \<and> onError_calls (update_force props v) = onError_calls v
   \<and> onError_calls (rerender random old new v) = onError_calls v
   \<and> console_warn (render_graph random props v) =
       console_warn v @
         (if p_data props = [] \<or> fst (dimensions v) = 0 then []
          else map (\<lambda>c. warn_missing (ch_nextId c)) (dangling_choices (p_data props)))"
  by (simp only: onError_render_graph onError_update_force onError_rerender console_render_graph)

theorem dangling_target_logged_not_reported_witness:
  "onError_calls (rerender half_draws (ghost_props\<lparr>p_data := loop_example\<rparr>) ghost_props mounted_viewer) = []
   \<and> onError_calls (update_force ghost_props idle_viewer) = []"
  using dangling_target_logged_not_reported
    [of half_draws ghost_props mounted_viewer "ghost_props\<lparr>p_data := loop_example\<rparr>" ghost_props]
    dangling_target_logged_not_reported [of half_draws ghost_props idle_viewer ghost_props ghost_props]
  by (simp add: mounted_viewer_def idle_viewer_def)

text \<open>
  The claim as stated fails at the node list with a choice to the missing node \<open>ghost\<close>:
  after the render the warning is on the console and \<^verbatim>\<open>onError\<close> has not been called.
\<close>

theorem dangling_target_not_reported_to_caller:
  "onError_calls (render_graph half_draws ghost_props mounted_viewer) = []
   \<and> console_warn (render_graph half_draws ghost_props mounted_viewer) = [''Missing target node: ghost'']"
  by (simp add: render_graph_def ghost_props_def mounted_viewer_def Let_def builder_defs ghost_example_def)

section \<open>Changing the repulsion\<close>

text \<open>
  C7. When a simulation exists and a commit changes the repulsion and neither the node list
  nor the theme, only the force effect runs: the simulation keeps its node array (every
  position and pin) and its link array, its cooling factor \<^verbatim>\<open>alpha\<close> becomes 0.3 (of a
  maximum of 1), its timer is running, and its charge strength is the negated new repulsion;
  the viewport, the console and the pending cleanup are unchanged.
\<close>

theorem repulsion_change_reheats_in_place:
  assumes "simulationRef v = Some sim"
    and "p_repulsionForce new \<noteq> p_repulsionForce old"
    and "p_data new = p_data old" and "p_isDarkMode new = p_isDarkMode old"
  shows "\<exists>sim'. simulationRef (rerender random old new v) = Some sim'
           \<and> sim_alpha sim' = 0.3 \<and> sim_running sim'
           \<and> sim_nodes sim' = sim_nodes sim \<and> sim_links sim' = sim_links sim
           \<and> sim_charge sim' = - p_repulsionForce new
           \<and> sim_alphaTarget sim' = sim_alphaTarget sim
           \<and> dimensions (rerender random old new v) = dimensions v
           \<and> console_warn (rerender random old new v) = console_warn v
           \<and> cleanup_pending (rerender random old new v) = cleanup_pending v"
  using assms
  by (simp add: rerender_def update_force_def restart_def alpha_def force_charge_def Let_def)

theorem repulsion_change_reheats_in_place_witness:
  "simulationRef idle_viewer = Some idle_simulation
   \<and> p_repulsionForce (ghost_props\<lparr>p_repulsionForce := 5000\<rparr>) \<noteq> p_repulsionForce ghost_props
   \<and> (\<exists>sim'. simulationRef (rerender half_draws ghost_props (ghost_props\<lparr>p_repulsionForce := 5000\<rparr>) idle_viewer) = Some sim'
         \<and> sim_alpha sim' = 0.3 \<and> sim_running sim'
         \<and> sim_nodes sim' = [node_at ''a'' 10 20, node_at ''b'' 30 40]
         \<and> sim_links sim' = sim_links idle_simulation
         \<and> sim_charge sim' = - 5000)"
proof -
  have 1: "simulationRef idle_viewer = Some idle_simulation"
    by (simp add: idle_viewer_def)
  have 2: "p_repulsionForce (ghost_props\<lparr>p_repulsionForce := 5000\<rparr>) \<noteq> p_repulsionForce ghost_props"
    by (simp add: ghost_props_def)
  have 3: "p_data (ghost_props\<lparr>p_repulsionForce := 5000\<rparr>) = p_data ghost_props" by simp
  have 4: "p_isDarkMode (ghost_props\<lparr>p_repulsionForce := 5000\<rparr>) = p_isDarkMode ghost_props" by simp
  have 5: "sim_nodes idle_simulation = [node_at ''a'' 10 20, node_at ''b'' 30 40]"
    by (simp add: idle_simulation_def)
  from repulsion_change_reheats_in_place [OF 1 2 3 4, of half_draws] 1 2 5
  show ?thesis by auto
qed

section \<open>Dragging\<close>

text \<open>
  C8. For every node of the simulation, the drag-end handler sets both pinned-position
  fields of that node to null and leaves its position, every other node, the cooling factor
  \<^verbatim>\<open>alpha\<close> and the state of the timer as they were; it sets the target of the cooling
  factor to 0 when no other gesture is active. Drag start with no other gesture active, in
  contrast, sets the target to 0.3 and restarts the timer. (A node whose pinned-position
  fields are null is one that the simulation is free to move at its ticks.)
\<close>

theorem drag_end_unpins_without_reheat:
  assumes "i < length (sim_nodes sim)"
  shows "gn_fx (sim_nodes (dragended active i sim) ! i) = None
       \<and> gn_fy (sim_nodes (dragended active i sim) ! i) = None
       \<and> gn_x (sim_nodes (dragended active i sim) ! i) = gn_x (sim_nodes sim ! i)
       \<and> gn_y (sim_nodes (dragended active i sim) ! i) = gn_y (sim_nodes sim ! i)
       \<and> length (sim_nodes (dragended active i sim)) = length (sim_nodes sim)
       \<and> (\<forall>j. j \<noteq> i \<longrightarrow> sim_nodes (dragended active i sim) ! j = sim_nodes sim ! j)
       \<and> sim_links (dragended active i sim) = sim_links sim
       \<and> sim_alpha (dragended active i sim) = sim_alpha sim
       \<and> sim_running (dragended active i sim) = sim_running sim
       \<and> sim_alphaTarget (dragended active i sim) = (if active = 0 then 0 else sim_alphaTarget sim)
       \<and> sim_alphaTarget (dragstarted 0 i sim) = 0.3
       \<and> sim_running (dragstarted 0 i sim)"
  using assms
  by (simp add: dragended_def dragstarted_def update_node_def alphaTarget_def restart_def)

theorem drag_end_unpins_without_reheat_witness:
  "(0::nat) < length (sim_nodes idle_simulation)
   \<and> gn_fx (sim_nodes (dragged 100 100 0 (dragstarted 0 0 idle_simulation)) ! 0) = Some 100
   \<and> gn_fx (sim_nodes (dragended 0 0 (dragged 100 100 0 (dragstarted 0 0 idle_simulation))) ! 0) = None
   \<and> gn_fy (sim_nodes (dragended 0 0 (dragged 100 100 0 (dragstarted 0 0 idle_simulation))) ! 0) = None
   \<and> sim_alpha (dragended 0 0 (dragged 100 100 0 (dragstarted 0 0 idle_simulation))) = 0"
proof -
  let ?s = "dragged 100 100 0 (dragstarted 0 0 idle_simulation)"
  have len: "(0::nat) < length (sim_nodes ?s)"
    by (simp add: dragged_def dragstarted_def update_node_def idle_simulation_def
        alphaTarget_def restart_def)
  have 0: "(0::nat) < length (sim_nodes idle_simulation)"
    by (simp add: idle_simulation_def)
  have pinned: "gn_fx (sim_nodes ?s ! 0) = Some 100"
    by (simp add: dragged_def dragstarted_def update_node_def idle_simulation_def
        alphaTarget_def restart_def)
  have a: "sim_alpha ?s = 0"
    by (simp add: dragged_def dragstarted_def update_node_def idle_simulation_def
        alphaTarget_def restart_def)
  from drag_end_unpins_without_reheat [OF len, of 0] 0 pinned a show ?thesis by simp
qed

section \<open>Label truncation\<close>

text \<open>
  C4. For every text: if it has 26 characters or more, the link label is its first 25
  characters (exactly 25 of them) followed by the three dots, and the node content text is the
  same between double quotes; if it has 25 characters or fewer, the link label is the text
  itself and the node content text is the text between double quotes.
\<close>

theorem label_truncated_to_25:
  "(26 \<le> length s \<longrightarrow>
      link_label_text s = take 25 s @ ''...'' \<and> length (take 25 s) = 25
      \<and> node_content_text s = [CHR 0x22] @ take 25 s @ ''...'' @ [CHR 0x22])
   \<and> (length s \<le> 25 \<longrightarrow>
      link_label_text s = s \<and> node_content_text s = [CHR 0x22] @ s @ [CHR 0x22])"
  by (simp add: link_label_text_def node_content_text_def)

theorem label_truncated_to_25_witness:
  "link_label_text ''abcdefghijklmnopqrstuvwxyz'' = ''abcdefghijklmnopqrstuvwxy...''
   \<and> node_content_text ''abcdefghijklmnopqrstuvwxyz'' = [CHR 0x22] @ ''abcdefghijklmnopqrstuvwxy...'' @ [CHR 0x22]
   \<and> link_label_text ''abcdefghijklmnopqrstuvwxy'' = ''abcdefghijklmnopqrstuvwxy''
   \<and> node_content_text ''abcdefghijklmnopqrstuvwxy'' = [CHR 0x22] @ ''abcdefghijklmnopqrstuvwxy'' @ [CHR 0x22]"
  using label_truncated_to_25 [of "''abcdefghijklmnopqrstuvwxyz''"]
    label_truncated_to_25 [of "''abcdefghijklmnopqrstuvwxy''"]
  by simp

section \<open>Initial positions\<close>

lemma square_le_625:
  fixes r :: real
  assumes "0 \<le> r" and "r < 1"
  shows "((r - 0.5) * 50)\<^sup>2 \<le> 625"
proof -
  from assms have "\<bar>(r - 0.5) * 50\<bar> \<le> \<bar>25\<bar>" by (simp add: abs_le_iff)
  then have "((r - 0.5) * 50)\<^sup>2 \<le> 25\<^sup>2" by (simp only: abs_le_square_iff)
  then show ?thesis by simp
qed

lemma mk_node_near_centre:
  assumes "0 \<le> r1" "r1 < 1" "0 \<le> r2" "r2 < 1"
  shows "distance (gn_x (mk_node w h r1 r2 d), gn_y (mk_node w h r1 r2 d)) (w / 2, h / 2) \<le> 50"
proof -
  have "((r1 - 0.5) * 50)\<^sup>2 + ((r2 - 0.5) * 50)\<^sup>2 \<le> 50\<^sup>2"
    using square_le_625 [OF assms(1,2)] square_le_625 [OF assms(3,4)] by simp
  then have "sqrt (((r1 - 0.5) * 50)\<^sup>2 + ((r2 - 0.5) * 50)\<^sup>2) \<le> 50"
    by (intro real_le_lsqrt) simp_all
  then show ?thesis by (simp add: distance_def mk_node_def)
qed

text \<open>
  C9. For every node list, viewport and stream of draws with every draw in [0, 1), every
  node that the builder creates lies at most 50 units from the centre of the viewport.
  (Positions are exact reals in the model.)
\<close>

theorem initial_position_near_centre:
  assumes "\<forall>k. 0 \<le> random k \<and> random k < 1"
    and "n \<in> set (fst (build_graph width height random ds))"
  shows "distance (gn_x n, gn_y n) (width / 2, height / 2) \<le> 50"
proof -
  from assms(2) obtain i d where "n = mk_node width height (random (2 * i)) (random (2 * i + 1)) d"
    by (auto simp: build_graph_def build_nodes_def Let_def)
  with assms(1) show ?thesis
    by (simp add: mk_node_near_centre)
qed

theorem initial_position_near_centre_witness:
  "(\<forall>k. 0 \<le> zero_draws k \<and> zero_draws k < 1)
   \<and> node_at ''a'' 375 275 \<in> set (fst (build_graph 800 600 zero_draws loop_example))
   \<and> distance (375, 275) (400, 300) \<le> 50"
proof -
  have 1: "\<forall>k. 0 \<le> zero_draws k \<and> zero_draws k < 1"
    by (simp add: zero_draws_def)
  have 2: "node_at ''a'' 375 275 \<in> set (fst (build_graph 800 600 zero_draws loop_example))"
    by (simp add: build_graph_def build_nodes_def mk_node_def Let_def loop_example_def
        zero_draws_def node_at_def speaker_or_default_def)
  from initial_position_near_centre [OF 1 2] 1 2 show ?thesis
    by (simp add: node_at_def)
qed

section \<open>Paths of the built links\<close>

text \<open>
  Both ends of every built link are ids of nodes, so the lookup of the link force succeeds and
  every built link has a path at every tick, whatever the positions of the nodes.
\<close>

lemma link_sources_resolve:
  "l \<in> set (fst (snd (build_graph w h r ds))) \<Longrightarrow> gl_source l \<in> set (map dn_id ds)"
  by (auto simp: link_in_graph mk_link_def)

lemma built_links_have_paths:
  assumes "l \<in> set (fst (snd (build_graph w h r ds)))" and "map gn_id nodes = map dn_id ds"
  shows "\<exists>p. link_path nodes l = Inr p"
proof -
  from link_sources_resolve [OF assms(1)] assms(2) have "has (nodeMap nodes) (gl_source l)"
    by (simp only: has_nodeMap)
  then obtain s where s: "nodeMap nodes (gl_source l) = Some s"
    by (auto simp: has_def)
  from link_targets_resolve [OF assms(1)] assms(2) have "has (nodeMap nodes) (gl_target l)"
    by (simp only: has_nodeMap)
  then obtain t where t: "nodeMap nodes (gl_target l) = Some t"
    by (auto simp: has_def)
  from link_d_total [of s t "gl_bidirectional l"] s t show ?thesis
    by (simp add: link_path_def)
qed

section \<open>Rounding to double precision\<close>

lemma round_half_even_error: "\<bar>of_int (round_half_even y) - y\<bar> \<le> 1 / 2"
proof -
  have "of_int \<lfloor>y\<rfloor> \<le> y" "y < of_int \<lfloor>y\<rfloor> + 1" by linarith+
  then show ?thesis
    by (auto simp: round_half_even_def Let_def)
qed

lemma exponent_eqI:
  assumes "2 powr of_int e \<le> \<bar>x\<bar>" and "\<bar>x\<bar> < 2 powr of_int (e + 1)" and "- 1022 \<le> e"
  shows "exponent x = e"
proof -
  from assms(1) have "0 < \<bar>x\<bar>"
    using powr_gt_zero [of 2 "of_int e"] by linarith
  then have "\<lfloor>log 2 \<bar>x\<bar>\<rfloor> = e"
    using assms(1,2) by (simp add: floor_log_eq_powr_iff)
  with assms(3) show ?thesis by (simp add: exponent_def)
qed

lemma fl64_eqI:
  assumes "2 powr of_int e \<le> \<bar>x\<bar>" and "\<bar>x\<bar> < 2 powr of_int (e + 1)" and "- 1022 \<le> e"
    and "round_half_even (x / 2 powr of_int (e - 52)) = m"
  shows "fl64 x = of_int m * 2 powr of_int (e - 52)"
proof -
  from assms(1) have "x \<noteq> 0"
    using powr_gt_zero [of 2 "of_int e"] by auto
  with exponent_eqI [OF assms(1-3)] assms(4) show ?thesis
    by (simp add: fl64_def)
qed

lemma pow2_exponent_le:
  assumes "x \<noteq> 0"
  shows "2 powr of_int (exponent x) \<le> max \<bar>x\<bar> (2 powr (- 1022))"
proof (cases "- 1022 \<le> \<lfloor>log 2 \<bar>x\<bar>\<rfloor>")
  case False
  then have "exponent x = - 1022" by (simp add: exponent_def)
  then show ?thesis by simp
next
  case True
  then have e: "exponent x = \<lfloor>log 2 \<bar>x\<bar>\<rfloor>" by (simp add: exponent_def)
  from assms have "0 < \<bar>x\<bar>" by simp
  then have "2 powr of_int \<lfloor>log 2 \<bar>x\<bar>\<rfloor> \<le> \<bar>x\<bar>"
    using floor_log_eq_powr_iff [of "\<bar>x\<bar>" 2 "\<lfloor>log 2 \<bar>x\<bar>\<rfloor>"] by simp
  with e show ?thesis by simp
qed

lemma fl64_error_exponent: "\<bar>fl64 x - x\<bar> \<le> 2 powr (- 53) * 2 powr of_int (exponent x)"
proof (cases "x = 0")
  case True
  then show ?thesis by (simp add: fl64_def)
next
  case False
  let ?p = "2 powr of_int (exponent x - 52) :: real"
  let ?y = "x / ?p"
  have p: "0 < ?p" by simp
  have "fl64 x - x = (of_int (round_half_even ?y) - ?y) * ?p"
    using False by (simp add: fl64_def algebra_simps)
  then have "\<bar>fl64 x - x\<bar> = \<bar>of_int (round_half_even ?y) - ?y\<bar> * ?p"
    by (simp add: abs_mult)
  also have "\<dots> \<le> 1 / 2 * ?p"
    using round_half_even_error [of ?y] p by (intro mult_right_mono) simp_all
  also have "1 / 2 * ?p = 2 powr (- 53) * 2 powr of_int (exponent x)"
  proof -
    have "(1 / 2 :: real) = 2 powr (- 1)" by (simp add: powr_minus_divide)
    then have "1 / 2 * ?p = 2 powr (- 1 + of_int (exponent x - 52))"
      by (simp only: powr_add)
    also have "- 1 + of_int (exponent x - 52) = (- 53 :: real) + of_int (exponent x)" by simp
    finally show ?thesis by (simp only: powr_add)
  qed
  finally show ?thesis .
qed

text \<open>The standard model of rounding, with gradual underflow.\<close>

lemma fl64_error: "\<bar>fl64 x - x\<bar> \<le> 2 powr (- 53) * max \<bar>x\<bar> (2 powr (- 1022))"
proof (cases "x = 0")
  case True
  then show ?thesis by (simp add: fl64_def)
next
  case False
  have "2 powr (- 53) * 2 powr of_int (exponent x) \<le> 2 powr (- 53) * max \<bar>x\<bar> (2 powr (- 1022))"
    using pow2_exponent_le [OF False] by (intro mult_left_mono) simp_all
  with fl64_error_exponent [of x] show ?thesis by linarith
qed

lemma fl64_normal: "2 powr (- 1022) \<le> \<bar>x\<bar> \<Longrightarrow> \<bar>fl64 x - x\<bar> \<le> 2 powr (- 53) * \<bar>x\<bar>"
  using fl64_error [of x] by (simp add: max_def split: if_splits)

lemma fl64_zero: "fl64 0 = 0"
  by (simp add: fl64_def)

section \<open>The path from (0, 0) to (60, 80) in double precision\<close>

lemmas fl64_eval = round_half_even_def powr_neg_numeral powr_minus_divide

lemma fl64_60: "fl64 60 = 60"
  by (rule trans [OF fl64_eqI [where e = 5 and m = "60 * 2 ^ 47"]]) (simp_all add: fl64_eval)

lemma fl64_80: "fl64 80 = 80"
  by (rule trans [OF fl64_eqI [where e = 6 and m = "80 * 2 ^ 46"]]) (simp_all add: fl64_eval)

lemma fl64_3600: "fl64 3600 = 3600"
  by (rule trans [OF fl64_eqI [where e = 11 and m = "3600 * 2 ^ 41"]]) (simp_all add: fl64_eval)

lemma fl64_6400: "fl64 6400 = 6400"
  by (rule trans [OF fl64_eqI [where e = 12 and m = "6400 * 2 ^ 40"]]) (simp_all add: fl64_eval)

lemma fl64_10000: "fl64 10000 = 10000"
  by (rule trans [OF fl64_eqI [where e = 13 and m = "10000 * 2 ^ 39"]]) (simp_all add: fl64_eval)

lemma fl64_100: "fl64 100 = 100"
  by (rule trans [OF fl64_eqI [where e = 6 and m = "100 * 2 ^ 46"]]) (simp_all add: fl64_eval)

lemma sqrt_10000: "sqrt 10000 = 100"
  using real_sqrt_abs [of "100::real"] by simp

lemma fl64_ux: "fl64 (3 / 5) = 5404319552844595 / 2 ^ 53"
  by (rule trans [OF fl64_eqI [where e = "- 1" and m = 5404319552844595]]) (simp_all add: fl64_eval)

lemma fl64_uy: "fl64 (4 / 5) = 7205759403792794 / 2 ^ 53"
  by (rule trans [OF fl64_eqI [where e = "- 1" and m = 7205759403792794]]) (simp_all add: fl64_eval)

lemma fl64_px: "fl64 (5404319552844595 / 2 ^ 53 * 28) = 4728779608739021 / 2 ^ 48"
  by (rule trans [OF fl64_eqI [where e = 4 and m = 4728779608739021]]) (simp_all add: fl64_eval)

lemma fl64_py: "fl64 (7205759403792794 / 2 ^ 53 * 28) = 6305039478318695 / 2 ^ 48"
  by (rule trans [OF fl64_eqI [where e = 4 and m = 6305039478318695]]) (simp_all add: fl64_eval)

lemma fl64_sx: "fl64 (0 + 4728779608739021 / 2 ^ 48) = 4728779608739021 / 2 ^ 48"
  by (rule trans [OF fl64_eqI [where e = 4 and m = 4728779608739021]]) (simp_all add: fl64_eval)

lemma fl64_sy: "fl64 (0 + 6305039478318695 / 2 ^ 48) = 6305039478318695 / 2 ^ 48"
  by (rule trans [OF fl64_eqI [where e = 4 and m = 6305039478318695]]) (simp_all add: fl64_eval)

lemma fl64_tx: "fl64 (60 - 4728779608739021 / 2 ^ 48) = 6079859496950170 / 2 ^ 47"
  by (rule trans [OF fl64_eqI [where e = 5 and m = 6079859496950170]]) (simp_all add: fl64_eval)

lemma fl64_ty: "fl64 (80 - 6305039478318695 / 2 ^ 48) = 8106479329266892 / 2 ^ 47"
  by (rule trans [OF fl64_eqI [where e = 5 and m = 8106479329266892]]) (simp_all add: fl64_eval)

lemma at_60_80_dx: "fl64 (60 - 0) = 60" by (simp add: fl64_60)
lemma at_60_80_dy: "fl64 (80 - 0) = 80" by (simp add: fl64_80)
lemma at_60_80_dx2: "fl64 (60 * 60) = 3600" by (simp add: fl64_3600)
lemma at_60_80_dy2: "fl64 (80 * 80) = 6400" by (simp add: fl64_6400)
lemma at_60_80_sum: "fl64 (3600 + 6400) = 10000" by (simp add: fl64_10000)
lemma at_60_80_dist: "fl64 (sqrt 10000) = 100" by (simp add: sqrt_10000 fl64_100)
lemma at_60_80_ux: "fl64 (60 / 100) = 5404319552844595 / 2 ^ 53" using fl64_ux by simp
lemma at_60_80_uy: "fl64 (80 / 100) = 7205759403792794 / 2 ^ 53" using fl64_uy by simp

text \<open>
  The claim as stated fails in double precision for the straight link from (0, 0) to (60, 80):
  the computed unit vector is (0.6, 0.8) rounded, its multiple by 28 is rounded again, and the
  first point of the path lies at a distance of more than 28 from the centre of the source.
\<close>

theorem rounded_path_start_beyond_offset:
  "link_d_f64 (node_at ''a'' 0 0) (node_at ''b'' 60 80) False =
     Inr (LinePath (4728779608739021 / 2 ^ 48) (6305039478318695 / 2 ^ 48)
                   (6079859496950170 / 2 ^ 47) (8106479329266892 / 2 ^ 47))
   \<and> 28 < distance (4728779608739021 / 2 ^ 48, 6305039478318695 / 2 ^ 48) (0, 0)"
proof
  have sel: "gn_x (node_at ''a'' 0 0) = 0" "gn_y (node_at ''a'' 0 0) = 0"
    "gn_x (node_at ''b'' 60 80) = 60" "gn_y (node_at ''b'' 60 80) = 80"
    by (simp_all add: node_at_def)
  have nz: "(100::real) \<noteq> 0" by simp
  show "link_d_f64 (node_at ''a'' 0 0) (node_at ''b'' 60 80) False =
     Inr (LinePath (4728779608739021 / 2 ^ 48) (6305039478318695 / 2 ^ 48)
                   (6079859496950170 / 2 ^ 47) (8106479329266892 / 2 ^ 47))"
    unfolding link_d_f64_def Let_def js_divide_f64_def sel at_60_80_dx at_60_80_dy at_60_80_dx2 at_60_80_dy2 at_60_80_sum at_60_80_dist
    by (simp only: nz if_False at_60_80_ux at_60_80_uy sum.case fl64_px fl64_py fl64_sx fl64_sy fl64_tx fl64_ty)
  have "(28::real)\<^sup>2 < (4728779608739021 / 2 ^ 48)\<^sup>2 + (6305039478318695 / 2 ^ 48)\<^sup>2"
    by (simp add: power2_eq_square)
  then have "28 < sqrt ((4728779608739021 / 2 ^ 48)\<^sup>2 + (6305039478318695 / 2 ^ 48)\<^sup>2)"
    by (rule real_less_rsqrt)
  then show "28 < distance (4728779608739021 / 2 ^ 48, 6305039478318695 / 2 ^ 48) (0, 0)"
    by (simp add: distance_def)
qed

section \<open>Error bounds of the rounded path\<close>

lemma fl64_rel:
  assumes "x = 0 \<or> 1 / 2 ^ 1022 \<le> \<bar>x\<bar>"
  shows "\<bar>fl64 x - x\<bar> \<le> \<bar>x\<bar> / 2 ^ 53"
proof (cases "x = 0")
  case True
  then show ?thesis by (simp add: fl64_zero)
next
  case False
  with assms have "2 powr (- 1022) \<le> \<bar>x\<bar>"
    by (simp add: powr_neg_numeral)
  from fl64_normal [OF this] show ?thesis
    by (simp add: powr_neg_numeral)
qed

lemma fl64_nonneg_bounds:
  assumes "x = 0 \<or> 1 / 2 ^ 1022 \<le> x" and "0 \<le> x"
  shows "x - x / 2 ^ 53 \<le> fl64 x" and "fl64 x \<le> x + x / 2 ^ 53"
proof -
  from assms have "x = 0 \<or> 1 / 2 ^ 1022 \<le> \<bar>x\<bar>" by auto
  from fl64_rel [OF this] assms(2) have "\<bar>fl64 x - x\<bar> \<le> x / 2 ^ 53" by simp
  then show "x - x / 2 ^ 53 \<le> fl64 x" and "fl64 x \<le> x + x / 2 ^ 53"
    by linarith+
qed

lemma fl64_abs_bounds:
  assumes "x = 0 \<or> 1 / 2 ^ 1022 \<le> \<bar>x\<bar>"
  shows "\<bar>x\<bar> - \<bar>x\<bar> / 2 ^ 53 \<le> \<bar>fl64 x\<bar>" and "\<bar>fl64 x\<bar> \<le> \<bar>x\<bar> + \<bar>x\<bar> / 2 ^ 53"
proof -
  from fl64_rel [OF assms] have e: "\<bar>fl64 x - x\<bar> \<le> \<bar>x\<bar> / 2 ^ 53" .
  then show "\<bar>x\<bar> - \<bar>x\<bar> / 2 ^ 53 \<le> \<bar>fl64 x\<bar>" and "\<bar>fl64 x\<bar> \<le> \<bar>x\<bar> + \<bar>x\<bar> / 2 ^ 53"
    by linarith+
qed

lemma square_normal:
  fixes x :: real
  assumes "x = 0 \<or> 1 / 2 ^ 501 \<le> \<bar>x\<bar>"
  shows "x * x = 0 \<or> 1 / 2 ^ 1002 \<le> x * x"
proof (cases "x = 0")
  case True
  then show ?thesis by simp
next
  case False
  with assms have "1 / 2 ^ 501 \<le> \<bar>x\<bar>" by simp
  then have "(1 / 2 ^ 501) * (1 / 2 ^ 501) \<le> \<bar>x\<bar> * \<bar>x\<bar>"
    by (intro mult_mono) simp_all
  then have "1 / 2 ^ 1002 \<le> x * x" by simp
  then show ?thesis ..
qed


text \<open>The computed distance against the exact norm of the computed differences.\<close>

lemma rounded_sqrt_sum_bounds:
  fixes A B :: real
  assumes An: "A = 0 \<or> 1 / 2 ^ 1002 \<le> A" and Bn: "B = 0 \<or> 1 / 2 ^ 1002 \<le> B"
    and nz: "A \<noteq> 0 \<or> B \<noteq> 0"
    and Ah: "A \<le> 2 ^ 44" and Bh: "B \<le> 2 ^ 44"
  shows "(1 - 1 / 2 ^ 53)\<^sup>2 * sqrt (A + B) \<le> fl64 (sqrt (fl64 (fl64 A + fl64 B)))"
    and "fl64 (sqrt (fl64 (fl64 A + fl64 B))) \<le> 2 ^ 24"
proof -
  define a b where "a = fl64 A" and "b = fl64 B"
  define ab where "ab = a + b"
  define c where "c = fl64 ab"
  define r where "r = sqrt c"
  define S where "S = A + B"
  define N where "N = sqrt S"
  have "(0::real) \<le> 1 / 2 ^ 1002" by simp
  with An Bn have A0: "0 \<le> A" and B0: "0 \<le> B"
    by auto
  from An have An': "A = 0 \<or> 1 / 2 ^ 1022 \<le> A" by auto
  from Bn have Bn': "B = 0 \<or> 1 / 2 ^ 1022 \<le> B" by auto
  note a = fl64_nonneg_bounds [OF An' A0, folded a_def]
  note b = fl64_nonneg_bounds [OF Bn' B0, folded b_def]
  have Slow: "1 / 2 ^ 1002 \<le> S"
    using An Bn nz A0 B0 unfolding S_def by auto
  have Shigh: "S \<le> 2 ^ 45"
    using Ah Bh unfolding S_def by simp
  have ab_low: "S - S / 2 ^ 53 \<le> ab" and ab_high: "ab \<le> S + S / 2 ^ 53"
    using a b unfolding S_def ab_def by (simp_all add: add_divide_distrib)
  have "1 / 2 ^ 1022 \<le> ab"
    using ab_low Slow by simp
  then have ab0: "0 \<le> ab" and abn: "ab = 0 \<or> 1 / 2 ^ 1022 \<le> ab"
    by simp_all
  note c = fl64_nonneg_bounds [OF abn ab0, folded c_def]
  have c_low: "(1 - 1 / 2 ^ 53)\<^sup>2 * S \<le> c"
  proof -
    have eq: "(1 - 1 / 2 ^ 53)\<^sup>2 * S = (S - S / 2 ^ 53) - (S - S / 2 ^ 53) / 2 ^ 53"
      by (simp add: power2_eq_square algebra_simps)
    have "(S - S / 2 ^ 53) - (S - S / 2 ^ 53) / 2 ^ 53 \<le> c"
      using c(1) ab_low by (simp add: diff_divide_distrib)
    then show ?thesis by (simp only: eq)
  qed
  have c_high: "c \<le> (1 + 1 / 2 ^ 53)\<^sup>2 * S"
  proof -
    have eq: "(1 + 1 / 2 ^ 53)\<^sup>2 * S = (S + S / 2 ^ 53) + (S + S / 2 ^ 53) / 2 ^ 53"
      by (simp add: power2_eq_square algebra_simps)
    have "c \<le> (S + S / 2 ^ 53) + (S + S / 2 ^ 53) / 2 ^ 53"
      using c(2) ab_high by (simp add: add_divide_distrib)
    then show ?thesis by (simp only: eq)
  qed
  have r_low: "N - N / 2 ^ 53 \<le> r"
  proof -
    have "sqrt ((1 - 1 / 2 ^ 53)\<^sup>2 * S) = \<bar>1 - 1 / 2 ^ 53\<bar> * N"
      unfolding N_def by (simp only: real_sqrt_mult real_sqrt_abs)
    also have "\<dots> = N - N / 2 ^ 53" by (simp add: algebra_simps)
    finally have eq: "sqrt ((1 - 1 / 2 ^ 53)\<^sup>2 * S) = N - N / 2 ^ 53" .
    have "sqrt ((1 - 1 / 2 ^ 53)\<^sup>2 * S) \<le> sqrt c"
      by (rule real_sqrt_le_mono [OF c_low])
    then show ?thesis by (simp only: eq r_def)
  qed
  have r_high: "r \<le> N + N / 2 ^ 53"
  proof -
    have "sqrt ((1 + 1 / 2 ^ 53)\<^sup>2 * S) = \<bar>1 + 1 / 2 ^ 53\<bar> * N"
      unfolding N_def by (simp only: real_sqrt_mult real_sqrt_abs)
    also have "\<dots> = N + N / 2 ^ 53" by (simp add: algebra_simps)
    finally have eq: "sqrt ((1 + 1 / 2 ^ 53)\<^sup>2 * S) = N + N / 2 ^ 53" .
    have "sqrt c \<le> sqrt ((1 + 1 / 2 ^ 53)\<^sup>2 * S)"
      by (rule real_sqrt_le_mono [OF c_high])
    then show ?thesis by (simp only: eq r_def)
  qed
  have N_low: "1 / 2 ^ 501 \<le> N"
  proof -
    have "(1 / 2 ^ 501)\<^sup>2 \<le> S" using Slow by (simp add: power2_eq_square)
    then have "sqrt ((1 / 2 ^ 501)\<^sup>2) \<le> N"
      unfolding N_def by (rule real_sqrt_le_mono)
    then show ?thesis by simp
  qed
  have N_high: "N \<le> 2 ^ 23"
  proof -
    have "S \<le> (2 ^ 23)\<^sup>2" using Shigh by simp
    then have "N \<le> sqrt ((2 ^ 23)\<^sup>2)"
      unfolding N_def by (rule real_sqrt_le_mono)
    then show ?thesis by simp
  qed
  have "1 / 2 ^ 1022 \<le> r"
    using r_low N_low by simp
  then have r0: "0 \<le> r" and rn: "r = 0 \<or> 1 / 2 ^ 1022 \<le> r"
    by simp_all
  note dd = fl64_nonneg_bounds [OF rn r0]
  have eq: "(1 - 1 / 2 ^ 53)\<^sup>2 * N = (N - N / 2 ^ 53) - (N - N / 2 ^ 53) / 2 ^ 53"
    by (simp add: power2_eq_square algebra_simps)
  have "(N - N / 2 ^ 53) - (N - N / 2 ^ 53) / 2 ^ 53 \<le> fl64 r"
    using dd(1) r_low by (simp add: diff_divide_distrib)
  then have "(1 - 1 / 2 ^ 53)\<^sup>2 * N \<le> fl64 r" by (simp only: eq)
  then show "(1 - 1 / 2 ^ 53)\<^sup>2 * sqrt (A + B) \<le> fl64 (sqrt (fl64 (fl64 A + fl64 B)))"
    unfolding N_def S_def r_def c_def ab_def a_def b_def .
  from dd(2) r_high N_high have "fl64 r \<le> 2 ^ 24" by simp
  then show "fl64 (sqrt (fl64 (fl64 A + fl64 B))) \<le> 2 ^ 24"
    unfolding r_def c_def ab_def a_def b_def .
qed

text \<open>One coordinate of the offset: the rounded quotient, times 28, rounded.\<close>

lemma rounded_component:
  fixes v :: real
  assumes "v = 0 \<or> 1 / 2 ^ 525 \<le> \<bar>v\<bar>"
  shows "\<bar>fl64 (fl64 v * 28)\<bar> \<le> 28 * (1 + 1 / 2 ^ 53)\<^sup>2 * \<bar>v\<bar>"
proof -
  define w where "w = \<bar>v\<bar>"
  define q where "q = \<bar>fl64 v\<bar>"
  define m where "m = \<bar>fl64 v * 28\<bar>"
  from assms have vn: "v = 0 \<or> 1 / 2 ^ 1022 \<le> \<bar>v\<bar>" by auto
  note q = fl64_abs_bounds [OF vn, folded q_def w_def]
  have m_eq: "m = 28 * q" by (simp add: m_def q_def abs_mult)
  have mn: "fl64 v * 28 = 0 \<or> 1 / 2 ^ 1022 \<le> \<bar>fl64 v * 28\<bar>"
  proof (cases "v = 0")
    case True
    then show ?thesis by (simp add: fl64_zero)
  next
    case False
    with assms have "1 / 2 ^ 525 \<le> w" by (simp add: w_def)
    with q(1) have "1 / 2 ^ 1022 \<le> 28 * q" by simp
    then show ?thesis by (simp add: m_eq [unfolded m_def])
  qed
  from fl64_abs_bounds(2) [OF mn, folded m_def]
  have "\<bar>fl64 (fl64 v * 28)\<bar> \<le> m + m / 2 ^ 53" .
  also have "\<dots> \<le> 28 * (w + w / 2 ^ 53) + 28 * (w + w / 2 ^ 53) / 2 ^ 53"
    using q(2) unfolding m_eq by simp
  also have "\<dots> = 28 * (1 + 1 / 2 ^ 53)\<^sup>2 * w"
    by (simp add: power2_eq_square algebra_simps)
  finally show ?thesis unfolding w_def .
qed

lemma square_le_of_abs_le:
  fixes p c w :: real
  assumes "\<bar>p\<bar> \<le> c * \<bar>w\<bar>"
  shows "p\<^sup>2 \<le> c\<^sup>2 * w\<^sup>2"
proof -
  have "\<bar>p\<bar>\<^sup>2 \<le> (c * \<bar>w\<bar>)\<^sup>2"
    using assms by (intro power_mono) simp_all
  then show ?thesis by (simp add: power_mult_distrib)
qed

text \<open>The norm of the rounded offset vector.\<close>

lemma rounded_offset_norm:
  fixes dx dy d :: real
  assumes x: "dx = 0 \<or> 1 / 2 ^ 501 \<le> \<bar>dx\<bar>" and y: "dy = 0 \<or> 1 / 2 ^ 501 \<le> \<bar>dy\<bar>"
    and nz: "dx \<noteq> 0 \<or> dy \<noteq> 0"
    and dlow: "(1 - 1 / 2 ^ 53)\<^sup>2 * sqrt (dx * dx + dy * dy) \<le> d" and dhigh: "d \<le> 2 ^ 24"
  shows "sqrt ((fl64 (fl64 (dx / d) * 28))\<^sup>2 + (fl64 (fl64 (dy / d) * 28))\<^sup>2) \<le> 28 + 1 / 2 ^ 40"
proof -
  define N where "N = sqrt (dx * dx + dy * dy)"
  define lo2 :: real where "lo2 = (1 - 1 / 2 ^ 53)\<^sup>2"
  define C :: real where "C = 28 * (1 + 1 / 2 ^ 53)\<^sup>2"
  define px py where "px = fl64 (fl64 (dx / d) * 28)" and "py = fl64 (fl64 (dy / d) * 28)"
  have lo2: "0 < lo2" and C: "0 \<le> C"
    by (simp_all add: lo2_def C_def)
  have num: "C / lo2 \<le> 28 + 1 / 2 ^ 40"
    by (simp add: lo2_def C_def power2_eq_square)
  have S: "0 < dx * dx + dy * dy"
    using nz by (metis not_sum_squares_lt_zero sum_squares_eq_zero_iff linorder_neqE_linordered_idom)
  then have N: "0 < N" by (simp add: N_def)
  from dlow have dlow': "lo2 * N \<le> d" by (simp only: lo2_def N_def)
  moreover from lo2 N have "0 < lo2 * N" by (rule mult_pos_pos)
  ultimately have d: "0 < d" by linarith
  have normal: "v = 0 \<or> 1 / 2 ^ 501 \<le> \<bar>v\<bar> \<Longrightarrow> v / d = 0 \<or> 1 / 2 ^ 525 \<le> \<bar>v / d\<bar>" for v :: real
  proof (cases "v = 0")
    case True
    then show ?thesis by simp
  next
    case False
    assume "v = 0 \<or> 1 / 2 ^ 501 \<le> \<bar>v\<bar>"
    with False have "1 / 2 ^ 501 \<le> \<bar>v\<bar>" by simp
    then have "(1 / 2 ^ 501) / 2 ^ 24 \<le> \<bar>v\<bar> / d"
      using d dhigh by (intro frac_le) simp_all
    then have "1 / 2 ^ 525 \<le> \<bar>v / d\<bar>"
      using d by simp
    then show ?thesis ..
  qed
  have px: "px\<^sup>2 \<le> C\<^sup>2 * (dx / d)\<^sup>2"
    using rounded_component [OF normal [OF x]] unfolding px_def C_def
    by (rule square_le_of_abs_le)
  have py: "py\<^sup>2 \<le> C\<^sup>2 * (dy / d)\<^sup>2"
    using rounded_component [OF normal [OF y]] unfolding py_def C_def
    by (rule square_le_of_abs_le)
  have vv: "(dx / d)\<^sup>2 + (dy / d)\<^sup>2 = (N / d)\<^sup>2"
    using S by (simp add: N_def power_divide power2_eq_square add_divide_distrib)
  from px py have "px\<^sup>2 + py\<^sup>2 \<le> C\<^sup>2 * (dx / d)\<^sup>2 + C\<^sup>2 * (dy / d)\<^sup>2"
    by (rule add_mono)
  also have "\<dots> = C\<^sup>2 * ((dx / d)\<^sup>2 + (dy / d)\<^sup>2)"
    by (simp only: distrib_left)
  finally have "px\<^sup>2 + py\<^sup>2 \<le> C\<^sup>2 * (N / d)\<^sup>2"
    by (simp only: vv)
  then have "px\<^sup>2 + py\<^sup>2 \<le> (C * (N / d))\<^sup>2"
    by (simp only: power_mult_distrib)
  then have "sqrt (px\<^sup>2 + py\<^sup>2) \<le> sqrt ((C * (N / d))\<^sup>2)"
    by (rule real_sqrt_le_mono)
  also have "\<dots> = C * (N / d)"
    using C N d by simp
  also have "\<dots> \<le> C * (1 / lo2)"
  proof -
    from dlow' lo2 d have "N / d \<le> 1 / lo2"
      by (simp add: field_simps)
    then show ?thesis using C by (rule mult_left_mono)
  qed
  also have "\<dots> \<le> 28 + 1 / 2 ^ 40"
    using num by simp
  finally show ?thesis unfolding px_def py_def .
qed

text \<open>The last rounding: adding the offset to a centre.\<close>

lemma rounded_sum_error:
  fixes X p :: real
  assumes "\<bar>X\<bar> \<le> 2 ^ 20" and "\<bar>p\<bar> \<le> 29"
  shows "\<bar>fl64 (X + p) - (X + p)\<bar> \<le> (2 ^ 20 + 29) / 2 ^ 53"
proof -
  have "max \<bar>X + p\<bar> (2 powr (- 1022)) \<le> 2 ^ 20 + 29"
  proof -
    have "\<bar>X + p\<bar> \<le> 2 ^ 20 + 29" using assms by linarith
    moreover have "(2::real) powr (- 1022) \<le> 1"
      by (simp add: powr_neg_numeral)
    ultimately show ?thesis by simp
  qed
  then have "2 powr (- 53) * max \<bar>X + p\<bar> (2 powr (- 1022)) \<le> 2 powr (- 53) * (2 ^ 20 + 29)"
    by (intro mult_left_mono) simp_all
  also have "\<dots> = (2 ^ 20 + 29) / 2 ^ 53"
    by (simp add: powr_neg_numeral)
  finally show ?thesis using fl64_error [of "X + p"] by linarith
qed

lemma rounded_end_distance:
  fixes X Y px py :: real
  assumes X: "\<bar>X\<bar> \<le> 2 ^ 20" and Y: "\<bar>Y\<bar> \<le> 2 ^ 20"
    and n: "sqrt (px\<^sup>2 + py\<^sup>2) \<le> 28 + 1 / 2 ^ 40"
  shows "distance (fl64 (X + px), fl64 (Y + py)) (X, Y) \<le> 28 + 1 / 2 ^ 30"
proof -
  define ex ey where "ex = fl64 (X + px) - (X + px)" and "ey = fl64 (Y + py) - (Y + py)"
  have "\<bar>px\<bar> \<le> sqrt (px\<^sup>2 + py\<^sup>2)" "\<bar>py\<bar> \<le> sqrt (px\<^sup>2 + py\<^sup>2)"
    by (simp_all add: real_le_rsqrt)
  moreover have "28 + 1 / 2 ^ 40 \<le> (29::real)" by simp
  ultimately have p: "\<bar>px\<bar> \<le> 29" "\<bar>py\<bar> \<le> 29"
    using n by linarith+
  have ex: "\<bar>ex\<bar> \<le> (2 ^ 20 + 29) / 2 ^ 53"
    unfolding ex_def using X p(1) by (rule rounded_sum_error)
  have ey: "\<bar>ey\<bar> \<le> (2 ^ 20 + 29) / 2 ^ 53"
    unfolding ey_def using Y p(2) by (rule rounded_sum_error)
  have "distance (fl64 (X + px), fl64 (Y + py)) (X, Y) = sqrt ((px + ex)\<^sup>2 + (py + ey)\<^sup>2)"
    by (simp add: distance_def ex_def ey_def)
  also have "\<dots> \<le> sqrt (px\<^sup>2 + py\<^sup>2) + sqrt (ex\<^sup>2 + ey\<^sup>2)"
    by (rule real_sqrt_sum_squares_triangle_ineq)
  also have "\<dots> \<le> (28 + 1 / 2 ^ 40) + (\<bar>ex\<bar> + \<bar>ey\<bar>)"
    using n sqrt_sum_squares_le_sum_abs [of ex ey] by linarith
  also have "\<dots> \<le> 28 + 1 / 2 ^ 30"
    using ex ey by simp
  finally show ?thesis .
qed

text \<open>The rounded difference of two coordinates.\<close>

lemma rounded_difference:
  fixes D :: real
  assumes "D = 0 \<or> 1 / 2 ^ 500 \<le> \<bar>D\<bar>" and "\<bar>D\<bar> \<le> 2 ^ 21"
  shows "fl64 D = 0 \<or> 1 / 2 ^ 501 \<le> \<bar>fl64 D\<bar>" and "\<bar>fl64 D\<bar> \<le> 2 ^ 22"
    and "D \<noteq> 0 \<Longrightarrow> fl64 D \<noteq> 0"
proof -
  define w where "w = \<bar>D\<bar>"
  from assms(1) have "D = 0 \<or> 1 / 2 ^ 1022 \<le> \<bar>D\<bar>" by auto
  note b = fl64_abs_bounds [OF this, folded w_def]
  show "\<bar>fl64 D\<bar> \<le> 2 ^ 22"
    using b(2) assms(2) unfolding w_def [symmetric] by simp
  have *: "1 / 2 ^ 501 \<le> \<bar>fl64 D\<bar>" if "D \<noteq> 0"
  proof -
    from that assms(1) have "1 / 2 ^ 500 \<le> w" by (simp add: w_def)
    with b(1) show ?thesis by simp
  qed
  then show "fl64 D = 0 \<or> 1 / 2 ^ 501 \<le> \<bar>fl64 D\<bar>"
    by (cases "D = 0") (simp_all add: fl64_zero)
  show "fl64 D \<noteq> 0" if "D \<noteq> 0"
  proof -
    have "(0::real) < 1 / 2 ^ 501" by simp
    with * [OF that] show ?thesis by auto
  qed
qed

lemma square_upper:
  fixes x :: real
  assumes "\<bar>x\<bar> \<le> 2 ^ 22"
  shows "x * x \<le> 2 ^ 44"
proof -
  have "\<bar>x\<bar> * \<bar>x\<bar> \<le> 2 ^ 22 * 2 ^ 22"
    using assms by (intro mult_mono) simp_all
  then show ?thesis by simp
qed

text \<open>
  C6 (amended). For every link, straight or arc, whose ends have coordinates of magnitude at
  most \<open>2 ^ 20\<close> and differ, each coordinate difference being zero or at least
  \<open>1 / 2 ^ 500\<close> in magnitude, the path callback in double precision returns a path whose
  first point is at most \<open>28 + 1 / 2 ^ 30\<close> from the centre of the source node and whose last
  point is at most \<open>28 + 1 / 2 ^ 30\<close> from the centre of the target node. (The bound on the
  coordinates keeps the rounding error of the last addition below the tolerance; the bound on
  the differences keeps their squares out of the underflow range.)
\<close>

theorem rounded_path_ends_near_boundary_offset:
  assumes coords: "\<bar>gn_x s\<bar> \<le> 2 ^ 20" "\<bar>gn_y s\<bar> \<le> 2 ^ 20" "\<bar>gn_x t\<bar> \<le> 2 ^ 20" "\<bar>gn_y t\<bar> \<le> 2 ^ 20"
    and sepx: "gn_x t = gn_x s \<or> 1 / 2 ^ 500 \<le> \<bar>gn_x t - gn_x s\<bar>"
    and sepy: "gn_y t = gn_y s \<or> 1 / 2 ^ 500 \<le> \<bar>gn_y t - gn_y s\<bar>"
    and apart: "(gn_x s, gn_y s) \<noteq> (gn_x t, gn_y t)"
  shows "\<exists>p ps pe. link_d_f64 s t b = Inr p \<and> path_start p = Some ps \<and> path_end p = Some pe
           \<and> distance ps (gn_x s, gn_y s) \<le> 28 + 1 / 2 ^ 30
           \<and> distance pe (gn_x t, gn_y t) \<le> 28 + 1 / 2 ^ 30"
proof -
  define Dx Dy where "Dx = gn_x t - gn_x s" and "Dy = gn_y t - gn_y s"
  define dx dy where "dx = fl64 Dx" and "dy = fl64 Dy"
  define d where "d = fl64 (sqrt (fl64 (fl64 (dx * dx) + fl64 (dy * dy))))"
  define px py where "px = fl64 (fl64 (dx / d) * 28)" and "py = fl64 (fl64 (dy / d) * 28)"
  have Dxn: "Dx = 0 \<or> 1 / 2 ^ 500 \<le> \<bar>Dx\<bar>" and Dyn: "Dy = 0 \<or> 1 / 2 ^ 500 \<le> \<bar>Dy\<bar>"
    using sepx sepy by (auto simp: Dx_def Dy_def)
  have "(2::real) ^ 21 = 2 ^ 20 + 2 ^ 20" by simp
  then have Dxh: "\<bar>Dx\<bar> \<le> 2 ^ 21" and Dyh: "\<bar>Dy\<bar> \<le> 2 ^ 21"
    using coords unfolding Dx_def Dy_def by linarith+
  have Dnz: "Dx \<noteq> 0 \<or> Dy \<noteq> 0"
    using apart by (auto simp: Dx_def Dy_def)
  note x = rounded_difference [OF Dxn Dxh, folded dx_def]
  note y = rounded_difference [OF Dyn Dyh, folded dy_def]
  have nz: "dx \<noteq> 0 \<or> dy \<noteq> 0"
    using Dnz x(3) y(3) by auto
  then have nz2: "dx * dx \<noteq> 0 \<or> dy * dy \<noteq> 0" by simp
  note dd = rounded_sqrt_sum_bounds [OF square_normal [OF x(1)] square_normal [OF y(1)] nz2
      square_upper [OF x(2)] square_upper [OF y(2)], folded d_def]
  have S: "0 < dx * dx + dy * dy"
    using nz by (metis not_sum_squares_lt_zero sum_squares_eq_zero_iff linorder_neqE_linordered_idom)
  then have "0 < (1 - 1 / 2 ^ 53)\<^sup>2 * sqrt (dx * dx + dy * dy)"
    by (intro mult_pos_pos) simp_all
  with dd(1) have d0: "d \<noteq> 0" by linarith
  have norm: "sqrt (px\<^sup>2 + py\<^sup>2) \<le> 28 + 1 / 2 ^ 40"
    unfolding px_def py_def by (rule rounded_offset_norm [OF x(1) y(1) nz dd])
  have norm': "sqrt ((- px)\<^sup>2 + (- py)\<^sup>2) \<le> 28 + 1 / 2 ^ 40"
    using norm by simp
  have start: "distance (fl64 (gn_x s + px), fl64 (gn_y s + py)) (gn_x s, gn_y s) \<le> 28 + 1 / 2 ^ 30"
    by (rule rounded_end_distance [OF coords(1,2) norm])
  have "distance (fl64 (gn_x t + - px), fl64 (gn_y t + - py)) (gn_x t, gn_y t) \<le> 28 + 1 / 2 ^ 30"
    by (rule rounded_end_distance [OF coords(3,4) norm'])
  then have finish: "distance (fl64 (gn_x t - px), fl64 (gn_y t - py)) (gn_x t, gn_y t) \<le> 28 + 1 / 2 ^ 30"
    by simp
  have "link_d_f64 s t b =
      (if b then Inr (ArcPath (fl64 (gn_x s + px)) (fl64 (gn_y s + py))
                 (fl64 (sqrt (fl64 (fl64 ((fl64 (fl64 (gn_x t - px) - fl64 (gn_x s + px)))\<^sup>2)
                                   + fl64 ((fl64 (fl64 (gn_y t - py) - fl64 (gn_y s + py)))\<^sup>2)))))
                 (fl64 (gn_x t - px)) (fl64 (gn_y t - py)))
       else Inr (LinePath (fl64 (gn_x s + px)) (fl64 (gn_y s + py)) (fl64 (gn_x t - px)) (fl64 (gn_y t - py))))"
    using d0 unfolding link_d_f64_def js_divide_f64_def Let_def px_def py_def d_def dx_def dy_def Dx_def Dy_def
    by simp
  with start finish show ?thesis by (cases b) simp_all
qed

text \<open>The property for an arc between nodes at (0, 0) and (60, 80).\<close>

theorem rounded_path_ends_near_boundary_offset_witness:
  "\<bar>gn_x (node_at ''a'' 0 0)\<bar> \<le> 2 ^ 20 \<and> \<bar>gn_y (node_at ''a'' 0 0)\<bar> \<le> 2 ^ 20
   \<and> \<bar>gn_x (node_at ''b'' 60 80)\<bar> \<le> 2 ^ 20 \<and> \<bar>gn_y (node_at ''b'' 60 80)\<bar> \<le> 2 ^ 20
   \<and> 1 / 2 ^ 500 \<le> \<bar>gn_x (node_at ''b'' 60 80) - gn_x (node_at ''a'' 0 0)\<bar>
   \<and> 1 / 2 ^ 500 \<le> \<bar>gn_y (node_at ''b'' 60 80) - gn_y (node_at ''a'' 0 0)\<bar>
   \<and> (\<exists>p ps pe. link_d_f64 (node_at ''a'' 0 0) (node_at ''b'' 60 80) True = Inr p
         \<and> path_start p = Some ps \<and> path_end p = Some pe
         \<and> distance ps (0, 0) \<le> 28 + 1 / 2 ^ 30 \<and> distance pe (60, 80) \<le> 28 + 1 / 2 ^ 30)"
proof -
  let ?s = "node_at ''a'' 0 0" and ?t = "node_at ''b'' 60 80"
  have c: "\<bar>gn_x ?s\<bar> \<le> 2 ^ 20" "\<bar>gn_y ?s\<bar> \<le> 2 ^ 20" "\<bar>gn_x ?t\<bar> \<le> 2 ^ 20" "\<bar>gn_y ?t\<bar> \<le> 2 ^ 20"
    by (simp_all add: node_at_def)
  have sx: "1 / 2 ^ 500 \<le> \<bar>gn_x ?t - gn_x ?s\<bar>" and sy: "1 / 2 ^ 500 \<le> \<bar>gn_y ?t - gn_y ?s\<bar>"
    by (simp_all add: node_at_def)
  have a: "(gn_x ?s, gn_y ?s) \<noteq> (gn_x ?t, gn_y ?t)"
    by (simp add: node_at_def)
  from rounded_path_ends_near_boundary_offset [OF c disjI2 [OF sx] disjI2 [OF sy] a, of True]
  have "\<exists>p ps pe. link_d_f64 ?s ?t True = Inr p
         \<and> path_start p = Some ps \<and> path_end p = Some pe
         \<and> distance ps (0, 0) \<le> 28 + 1 / 2 ^ 30 \<and> distance pe (60, 80) \<le> 28 + 1 / 2 ^ 30"
    by (simp add: node_at_def)
  with c sx sy show ?thesis by blast
qed

section \<open>The zero-distance branch in double precision\<close>

text \<open>
  Coincident ends give the empty path in double precision too, and no division by zero is
  reached there either.
\<close>

lemma link_d_f64_coincident:
  assumes "gn_x s = gn_x t" and "gn_y s = gn_y t"
  shows "link_d_f64 s t b = Inr EmptyPath"
  using assms by (simp add: link_d_f64_def fl64_zero)

lemma link_d_f64_total: "\<exists>p. link_d_f64 s t b = Inr p"
  by (cases b) (simp_all add: link_d_f64_def js_divide_f64_def Let_def)

lemma exponent_subnormal:
  assumes "x \<noteq> 0" and "\<bar>x\<bar> < 2 powr (- 1022)"
  shows "exponent x = - 1022"
proof -
  from assms have "log 2 \<bar>x\<bar> < - 1022"
    by (simp add: log_less_iff)
  then have "\<lfloor>log 2 \<bar>x\<bar>\<rfloor> < - 1022"
    by (simp add: floor_less_iff)
  then show ?thesis by (simp add: exponent_def)
qed

lemma round_half_even_small:
  assumes "- (1 / 2) < y" and "y < 1 / 2"
  shows "round_half_even y = 0"
proof (cases "0 \<le> y")
  case True
  with assms have "\<lfloor>y\<rfloor> = 0" by (simp add: floor_eq_iff)
  with assms show ?thesis by (simp add: round_half_even_def Let_def)
next
  case False
  with assms have "\<lfloor>y\<rfloor> = - 1" by (simp add: floor_eq_iff)
  with assms show ?thesis by (simp add: round_half_even_def Let_def)
qed

lemma fl64_underflow:
  assumes "\<bar>x\<bar> < 1 / 2 ^ 1075"
  shows "fl64 x = 0"
proof (cases "x = 0")
  case True
  then show ?thesis by (simp add: fl64_zero)
next
  case False
  have "(1 / 2 ^ 1075 :: real) \<le> 2 powr (- 1022)"
    by (simp add: powr_neg_numeral)
  with assms have "\<bar>x\<bar> < 2 powr (- 1022)" by linarith
  from exponent_subnormal [OF False this] have e: "exponent x = - 1022" .
  define y where "y = x / 2 powr of_int (exponent x - 52)"
  have "y = x * 2 ^ 1074"
    by (simp add: y_def e powr_neg_numeral)
  with assms have "\<bar>y\<bar> < 1 / 2"
    by (simp add: abs_mult)
  then have "- (1 / 2) < y" "y < 1 / 2"
    by (simp_all add: abs_less_iff)
  then have "round_half_even y = 0"
    by (rule round_half_even_small)
  then show ?thesis
    unfolding fl64_def y_def by simp
qed

text \<open>
  Two distinct positions that are very close have a computed distance of zero: the square of
  the difference underflows, and the path is empty.
\<close>

lemma tiny_separation_empty_path:
  "link_d_f64 (node_at ''a'' 0 0) (node_at ''b'' (1 / 2 ^ 600) 0) b = Inr EmptyPath"
proof -
  have sel: "gn_x (node_at ''a'' 0 0) = 0" "gn_y (node_at ''a'' 0 0) = 0"
    "gn_x (node_at ''b'' (1 / 2 ^ 600) 0) = 1 / 2 ^ 600" "gn_y (node_at ''b'' (1 / 2 ^ 600) 0) = 0"
    by (simp_all add: node_at_def)
  have "fl64 (1 / 2 ^ 600) = 1 / 2 ^ 600"
    by (rule trans [OF fl64_eqI [where e = "- 600" and m = "2 ^ 52"]]) (simp_all add: fl64_eval)
  then have c1: "fl64 (1 / 2 ^ 600 - 0) = 1 / 2 ^ 600" by simp
  have c2: "fl64 (1 / 2 ^ 600 * (1 / 2 ^ 600)) = 0"
    by (rule fl64_underflow) simp
  have c3: "fl64 (0 - 0) = 0" "fl64 (0 * 0) = 0" "fl64 (0 + 0) = 0" "fl64 (sqrt 0) = 0"
    by (simp_all add: fl64_zero)
  show ?thesis
    unfolding link_d_f64_def Let_def sel c1 c2 c3
    by (simp only: simp_thms if_True)
qed

end
